theory Spec2Isabelle
  imports Complex_Main "HOL-Library.Sublist" "HOL-Library.Multiset"
begin

section \<open>Data model of \<^verbatim>\<open>src/app/page.tsx\<close>\<close>

text \<open>
  JavaScript numbers that hold times (\<^verbatim>\<open>performance.now()\<close>, milliseconds), durations and
  percentages are modelled as exact rationals; counters are natural numbers. A field that
  is \<^verbatim>\<open>null\<close> until it is set is an \<open>option\<close>.
\<close>

datatype status = Pending | Running | Completed | Failed

datatype chaos = ChaosNone | Chaos404 | ChaosSpikey

record preset_config =
  cfg_name :: string
  description :: string
  delay :: rat
  errorRate :: rat
  chaosType :: chaos

definition TEST_DURATION_SECONDS :: rat where
  "TEST_DURATION_SECONDS = 60"

text \<open>
  The table \<^verbatim>\<open>PRESETS\<close> (lines 9-14): an object with exactly four own keys. \<open>None\<close>
  means that the object has no own property of that name; the lookup \<^verbatim>\<open>PRESETS[preset]\<close>
  itself is \<open>config\<close> below.
\<close>

definition PRESETS :: "string \<Rightarrow> preset_config option" where
  "PRESETS k =
     (if k = ''baseline'' then
        Some \<lparr>cfg_name = ''BASELINE (STABLE)'',
              description = ''Standard load with no injected errors. System check complete.'',
              delay = 0, errorRate = 0, chaosType = ChaosNone\<rparr>
      else if k = ''latency'' then
        Some \<lparr>cfg_name = ''LATENCY INJECT'',
              description = ''Simulates 1 second initial network delay. High-stress pre-buffer test.'',
              delay = 1000, errorRate = 0, chaosType = ChaosNone\<rparr>
      else if k = ''404'' then
        Some \<lparr>cfg_name = ''NETWORK ERROR (10%)'',
              description = ''10% chance of a segment fault during transmission.'',
              delay = 0, errorRate = 1 / 10, chaosType = Chaos404\<rparr>
      else if k = ''spikey'' then
        Some \<lparr>cfg_name = ''SPIKE CHAOS'',
              description = ''Randomly injects packet drops and buffering events. High variability.'',
              delay = 0, errorRate = 5 / 100, chaosType = ChaosSpikey\<rparr>
      else None)"

text \<open>
  A test run as the creation form and the initial check build it (lines 373-387 and
  478-486). The fields \<^verbatim>\<open>id\<close> and \<^verbatim>\<open>name\<close> are called \<open>sim_id\<close> and \<open>sim_name\<close>.
\<close>

record simulation =
  sim_id :: string
  sim_name :: string
  videoUrl :: string
  preset :: string
  status :: status
  isMinimized :: bool
  ttff :: "rat option"
  rebufferingCount :: nat
  rebufferingTime :: rat
  errorCount :: nat
  playbackPercent :: rat
  startTime :: "rat option"
  endTime :: "rat option"

definition newSim :: "string \<Rightarrow> string \<Rightarrow> string \<Rightarrow> string \<Rightarrow> simulation" where
  "newSim i n url p =
     \<lparr>sim_id = i, sim_name = n, videoUrl = url, preset = p, status = Pending,
      isMinimized = False, ttff = None, rebufferingCount = 0, rebufferingTime = 0,
      errorCount = 0, playbackPercent = 0, startTime = None, endTime = None\<rparr>"

text \<open>
  The object literals handed to \<^verbatim>\<open>onUpdate\<close>: each names some of the mutable fields. A
  field the literal does not name is \<open>None\<close> here and is left as it is by the spread
  \<^verbatim>\<open>{ ...sim, ...patch }\<close>.
\<close>

record patch =
  p_status :: "status option"
  p_isMinimized :: "bool option"
  p_ttff :: "rat option"
  p_rebufferingCount :: "nat option"
  p_rebufferingTime :: "rat option"
  p_errorCount :: "nat option"
  p_playbackPercent :: "rat option"
  p_startTime :: "rat option"
  p_endTime :: "rat option"

definition no_patch :: patch where
  "no_patch =
     \<lparr>p_status = None, p_isMinimized = None, p_ttff = None, p_rebufferingCount = None,
      p_rebufferingTime = None, p_errorCount = None, p_playbackPercent = None,
      p_startTime = None, p_endTime = None\<rparr>"

definition spread :: "simulation \<Rightarrow> patch \<Rightarrow> simulation" where
  "spread sim p =
     sim\<lparr>status := (case p_status p of None \<Rightarrow> status sim | Some v \<Rightarrow> v),
         isMinimized := (case p_isMinimized p of None \<Rightarrow> isMinimized sim | Some v \<Rightarrow> v),
         ttff := (case p_ttff p of None \<Rightarrow> ttff sim | Some v \<Rightarrow> Some v),
         rebufferingCount :=
           (case p_rebufferingCount p of None \<Rightarrow> rebufferingCount sim | Some v \<Rightarrow> v),
         rebufferingTime :=
           (case p_rebufferingTime p of None \<Rightarrow> rebufferingTime sim | Some v \<Rightarrow> v),
         errorCount := (case p_errorCount p of None \<Rightarrow> errorCount sim | Some v \<Rightarrow> v),
         playbackPercent :=
           (case p_playbackPercent p of None \<Rightarrow> playbackPercent sim | Some v \<Rightarrow> v),
         startTime := (case p_startTime p of None \<Rightarrow> startTime sim | Some v \<Rightarrow> Some v),
         endTime := (case p_endTime p of None \<Rightarrow> endTime sim | Some v \<Rightarrow> Some v)\<rparr>"

text \<open>The second argument of \<^verbatim>\<open>onUpdate\<close>: an object, or a function of the current run.\<close>

datatype updates = Obj patch | Fn "simulation \<Rightarrow> patch"

section \<open>The registry (component \<^verbatim>\<open>App\<close>, lines 471-509)\<close>

definition handleCreateSimulation :: "simulation list \<Rightarrow> simulation \<Rightarrow> simulation list" where
  "handleCreateSimulation prev newS = prev @ [newS]"

definition handleUpdateSimulation ::
  "simulation list \<Rightarrow> string \<Rightarrow> updates \<Rightarrow> simulation list" where
  "handleUpdateSimulation prev i u =
     map (\<lambda>sim. if sim_id sim = i
                 then spread sim (case u of Fn f \<Rightarrow> f sim | Obj p \<Rightarrow> p)
                 else sim) prev"

definition handleRemoveSimulation :: "simulation list \<Rightarrow> string \<Rightarrow> simulation list" where
  "handleRemoveSimulation prev i = filter (\<lambda>sim. sim_id sim \<noteq> i) prev"

definition minimizedSimulations :: "simulation list \<Rightarrow> simulation list" where
  "minimizedSimulations simulations = filter (\<lambda>s. isMinimized s) simulations"

definition activeSimulations :: "simulation list \<Rightarrow> simulation list" where
  "activeSimulations simulations = filter (\<lambda>s. \<not> isMinimized s) simulations"

section \<open>Configuration lookup (line 62)\<close>

text \<open>
  \<^verbatim>\<open>const config = PRESETS[preset]\<close> is a property lookup on an object literal. It gives the
  preset record for one of the four own keys, a member inherited from \<^verbatim>\<open>Object.prototype\<close>
  for the names below (a function or object without the fields \<^verbatim>\<open>delay\<close>, \<^verbatim>\<open>errorRate\<close>
  and \<^verbatim>\<open>chaosType\<close>), and \<^verbatim>\<open>undefined\<close> for every other key. Reading a field of
  \<^verbatim>\<open>undefined\<close> throws a \<^verbatim>\<open>TypeError\<close>; reading a missing field of an object gives
  \<^verbatim>\<open>undefined\<close>, here \<open>None\<close>.
\<close>

datatype error = TypeError

datatype lookup = Own preset_config | Inherited | Undefined

definition Object_prototype_keys :: "string list" where
  "Object_prototype_keys =
     [''constructor'', ''hasOwnProperty'', ''isPrototypeOf'', ''propertyIsEnumerable'',
      ''toLocaleString'', ''toString'', ''valueOf'', ''__proto__'', ''__defineGetter__'',
      ''__defineSetter__'', ''__lookupGetter__'', ''__lookupSetter__'']"

definition config :: "string \<Rightarrow> lookup" where
  "config k =
     (case PRESETS k of
        Some c \<Rightarrow> Own c
      | None \<Rightarrow> if k \<in> set Object_prototype_keys then Inherited else Undefined)"

definition config_delay :: "lookup \<Rightarrow> error + rat option" where
  "config_delay c =
     (case c of Own r \<Rightarrow> Inr (Some (delay r)) | Inherited \<Rightarrow> Inr None | Undefined \<Rightarrow> Inl TypeError)"

definition config_errorRate :: "lookup \<Rightarrow> error + rat option" where
  "config_errorRate c =
     (case c of Own r \<Rightarrow> Inr (Some (errorRate r)) | Inherited \<Rightarrow> Inr None
      | Undefined \<Rightarrow> Inl TypeError)"

definition config_chaosType :: "lookup \<Rightarrow> error + chaos option" where
  "config_chaosType c =
     (case c of Own r \<Rightarrow> Inr (Some (chaosType r)) | Inherited \<Rightarrow> Inr None
      | Undefined \<Rightarrow> Inl TypeError)"

section \<open>One card: the lifecycle controller and the chaos injector (lines 53-201)\<close>

text \<open>
  The model follows one instance of \<^verbatim>\<open>SimulationCard\<close> from its first render to its
  unmount, together with the registry it updates. The state holds what the instance's
  closures can reach: the registry, the clock read by \<^verbatim>\<open>performance.now()\<close>, the results of
  \<^verbatim>\<open>Math.random()\<close>, the four refs, the video element's source and handlers, the live
  timers with the values their callbacks captured, and the cleanup function the last
  effect returned. Moving a card between the pinned and the detailed list (a change of
  \<^verbatim>\<open>isMinimized\<close>) makes React build a new instance; that is outside this model.
\<close>

text \<open>\<^verbatim>\<open>parseFloat(x.toFixed(d))\<close> on exact values: the nearest multiple of \<open>10\<^sup>-\<^sup>d\<close>, the larger
  magnitude when two are equally near.\<close>

definition toFixed :: "nat \<Rightarrow> rat \<Rightarrow> rat" where
  "toFixed d x =
     (if x < 0 then - (of_int (round (- x * 10 ^ d)) / 10 ^ d)
      else of_int (round (x * 10 ^ d)) / 10 ^ d)"

text \<open>
  The \<^verbatim>\<open>src\<close> of the video element: never assigned, a URL, the invalid URL of a fault cycle
  (tagged with the random number \<^verbatim>\<open>generateId\<close> drew for its token), or the empty string the
  completion callback assigns.
\<close>

datatype src = SrcUnset | SrcUrl string | SrcInvalid rat | SrcEmpty

text \<open>The callbacks handed to \<^verbatim>\<open>setTimeout\<close> and \<^verbatim>\<open>setInterval\<close>, with the values each
  closure captured from the render that made it.\<close>

datatype callback =
    BeginPlayback string
  | PlaybackUpdate status "rat option"
  | Complete
  | InjectChaos "rat option" string
  | ChaosRecover string

record timer =
  due :: rat
  period :: "rat option"
  callback :: callback

text \<open>
  The two functions the effect can return: the one of the running branch, which clears the
  completion timeout it holds (lines 187-189), and the one of the other branch, which
  clears both intervals and removes the four listeners (lines 192-199).
\<close>

datatype cleanup = ClearTimeout nat | Teardown

text \<open>
  The state. \<open>simulations\<close> is the state of \<^verbatim>\<open>App\<close> with every queued update applied;
  \<open>clock\<close> is what \<^verbatim>\<open>performance.now()\<close> returns; \<open>rnd k\<close> is the result of the \<open>k\<close>-th call of
  \<^verbatim>\<open>Math.random()\<close> and \<open>draws\<close> counts the calls made; \<open>faults\<close> counts the fault cycles
  started. \<open>card_id\<close> is the card's key, \<open>props\<close> the run it was last rendered with (\<open>None\<close>
  before the first render), \<open>videoRef\<close> says whether \<^verbatim>\<open>videoRef.current\<close> is an element;
  \<open>onerror\<close> and \<open>listeners\<close> say whether \<^verbatim>\<open>video.onerror\<close> and the four event listeners
  are attached. The other fields are the refs, the cleanup returned by the last effect,
  and the live timers by handle.
\<close>

record world =
  simulations :: "simulation list"
  clock :: rat
  rnd :: "nat \<Rightarrow> rat"
  draws :: nat
  faults :: nat
  card_id :: string
  props :: "simulation option"
  unmounted :: bool
  videoRef :: bool
  video_src :: src
  onerror :: bool
  listeners :: bool
  rebufferingTimerRef :: rat
  ttffStartRef :: rat
  intervalRef :: "nat option"
  chaosIntervalRef :: "nat option"
  cleanup :: "cleanup option"
  timers :: "(nat \<times> timer) list"
  nextTimer :: nat

definition init :: "simulation list \<Rightarrow> string \<Rightarrow> rat \<Rightarrow> (nat \<Rightarrow> rat) \<Rightarrow> world" where
  "init sims i t0 r =
     \<lparr>simulations = sims, clock = t0, rnd = r, draws = 0, faults = 0, card_id = i,
      props = None, unmounted = False, videoRef = False, video_src = SrcUnset,
      onerror = False, listeners = False, rebufferingTimerRef = 0, ttffStartRef = 0,
      intervalRef = None, chaosIntervalRef = None, cleanup = None, timers = [],
      nextTimer = 1\<rparr>"

definition the_sim :: "world \<Rightarrow> simulation option" where
  "the_sim w = find (\<lambda>s. sim_id s = card_id w) (simulations w)"

definition onUpdate :: "world \<Rightarrow> updates \<Rightarrow> world" where
  "onUpdate w u = w\<lparr>simulations := handleUpdateSimulation (simulations w) (card_id w) u\<rparr>"

definition onRemove :: "world \<Rightarrow> world" where
  "onRemove w = w\<lparr>simulations := handleRemoveSimulation (simulations w) (card_id w)\<rparr>"

text \<open>Timers. A delay that is \<^verbatim>\<open>undefined\<close>, \<^verbatim>\<open>NaN\<close> or negative counts as 0. Handles are
  positive integers.\<close>

definition timeoutArg :: "rat option \<Rightarrow> rat" where
  "timeoutArg ms = (case ms of None \<Rightarrow> 0 | Some d \<Rightarrow> max 0 d)"

definition setTimer :: "world \<Rightarrow> rat option \<Rightarrow> bool \<Rightarrow> callback \<Rightarrow> nat \<times> world" where
  "setTimer w ms repeat cb =
     (nextTimer w,
      w\<lparr>timers := timers w @
            [(nextTimer w,
              \<lparr>due = clock w + timeoutArg ms,
               period = (if repeat then Some (timeoutArg ms) else None),
               callback = cb\<rparr>)],
        nextTimer := nextTimer w + 1\<rparr>)"

definition setTimeout :: "world \<Rightarrow> callback \<Rightarrow> rat option \<Rightarrow> nat \<times> world" where
  "setTimeout w cb ms = setTimer w ms False cb"

definition setInterval :: "world \<Rightarrow> callback \<Rightarrow> rat option \<Rightarrow> nat \<times> world" where
  "setInterval w cb ms = setTimer w ms True cb"

definition clearTimer :: "world \<Rightarrow> nat option \<Rightarrow> world" where
  "clearTimer w h =
     (case h of
        None \<Rightarrow> w
      | Some k \<Rightarrow> w\<lparr>timers := filter (\<lambda>e. fst e \<noteq> k) (timers w)\<rparr>)"

definition truthy :: "nat option \<Rightarrow> bool" where
  "truthy h = (case h of None \<Rightarrow> False | Some k \<Rightarrow> k \<noteq> 0)"

definition Math_random :: "world \<Rightarrow> rat \<times> world" where
  "Math_random w = (rnd w (draws w), w\<lparr>draws := draws w + 1\<rparr>)"

subsection \<open>The handlers (lines 66-135)\<close>

definition updateStatus :: "world \<Rightarrow> status \<Rightarrow> world" where
  "updateStatus w newStatus = onUpdate w (Obj (no_patch\<lparr>p_status := Some newStatus\<rparr>))"

definition logError_update :: "simulation \<Rightarrow> patch" where
  "logError_update sim =
     (let newStatus = (if status sim = Running \<or> status sim = Pending then Failed
                       else status sim)
      in no_patch\<lparr>p_errorCount := Some (errorCount sim + 1), p_status := Some newStatus\<rparr>)"

definition logError :: "world \<Rightarrow> world" where
  "logError w = onUpdate w (Fn logError_update)"

definition handleRebufferingStart :: "world \<Rightarrow> world" where
  "handleRebufferingStart w =
     (let w1 = (if rebufferingTimerRef w = 0 then w\<lparr>rebufferingTimerRef := clock w\<rparr> else w)
      in onUpdate w1
           (Fn (\<lambda>sim. no_patch\<lparr>p_rebufferingCount := Some (rebufferingCount sim + 1)\<rparr>)))"

definition handleRebufferingEnd :: "world \<Rightarrow> world" where
  "handleRebufferingEnd w =
     (if rebufferingTimerRef w > 0 then
        let timeElapsed = clock w - rebufferingTimerRef w;
            w1 = onUpdate w
                   (Fn (\<lambda>sim. no_patch\<lparr>p_rebufferingTime :=
                                 Some (rebufferingTime sim + timeElapsed / 1000)\<rparr>))
        in w1\<lparr>rebufferingTimerRef := 0\<rparr>
      else w)"

definition percent_at :: "rat \<Rightarrow> rat option \<Rightarrow> rat" where
  "percent_at now st0 =
     (let currentTestTime = now - (case st0 of None \<Rightarrow> 0 | Some t \<Rightarrow> t)
      in min 100 (currentTestTime / (TEST_DURATION_SECONDS * 1000) * 100))"

definition handlePlaybackUpdate :: "world \<Rightarrow> status \<Rightarrow> rat option \<Rightarrow> world" where
  "handlePlaybackUpdate w st st0 =
     (if \<not> videoRef w \<or> st \<noteq> Running then w
      else onUpdate w
             (Obj (no_patch\<lparr>p_playbackPercent := Some (toFixed 1 (percent_at (clock w) st0))\<rparr>)))"

definition handleInitialPlay :: "world \<Rightarrow> world" where
  "handleInitialPlay w =
     handleRebufferingEnd
       (if ttffStartRef w > 0 then
          let timeToFirstFrame = clock w - ttffStartRef w;
              w1 = onUpdate w (Obj (no_patch\<lparr>p_ttff := Some (toFixed 2 timeToFirstFrame)\<rparr>));
              w2 = w1\<lparr>ttffStartRef := 0\<rparr>
          in updateStatus w2 Running
        else w)"

definition injectChaos :: "world \<Rightarrow> rat option \<Rightarrow> string \<Rightarrow> world" where
  "injectChaos w rate url =
     (let (u, w1) = Math_random w
      in if (case rate of None \<Rightarrow> False | Some r \<Rightarrow> u < r) then
           (if videoRef w1 then
              let (tok, w2) = Math_random w1;
                  w3 = w2\<lparr>video_src := SrcInvalid tok, faults := faults w2 + 1\<rparr>
              in snd (setTimeout w3 (ChaosRecover url) (Some 500))
            else w1)
         else w1)"

definition complete_update :: "rat \<Rightarrow> simulation \<Rightarrow> patch" where
  "complete_update now sim =
     no_patch\<lparr>p_status := Some Completed, p_endTime := Some now,
              p_playbackPercent := Some 100\<rparr>"

definition complete :: "world \<Rightarrow> world" where
  "complete w =
     (let w1 = clearTimer w (intervalRef w);
          w2 = (if truthy (chaosIntervalRef w1) then clearTimer w1 (chaosIntervalRef w1)
                else w1);
          w3 = w2\<lparr>video_src := SrcEmpty\<rparr>
      in onUpdate w3 (Fn (complete_update (clock w3))))"

subsection \<open>The lifecycle effect and its cleanup (lines 138-201)\<close>

record fields =
  f_delay :: "rat option"
  f_errorRate :: "rat option"
  f_chaosType :: "chaos option"

definition config_fields :: "lookup \<Rightarrow> error + fields" where
  "config_fields c =
     (case config_errorRate c of
        Inl e \<Rightarrow> Inl e
      | Inr rate \<Rightarrow>
          (case config_delay c of
             Inl e \<Rightarrow> Inl e
           | Inr d \<Rightarrow>
               (case config_chaosType c of
                  Inl e \<Rightarrow> Inl e
                | Inr ct \<Rightarrow> Inr \<lparr>f_delay = d, f_errorRate = rate, f_chaosType = ct\<rparr>)))"

definition useEffect :: "world \<Rightarrow> simulation \<Rightarrow> fields \<Rightarrow> world" where
  "useEffect w p cfg =
     (if \<not> videoRef w then w\<lparr>cleanup := None\<rparr>
      else
        let w1 = (if status p = Pending \<and> startTime p = None then
                    let wa = onUpdate w (Obj (no_patch\<lparr>p_startTime := Some (clock w)\<rparr>));
                        wb = wa\<lparr>ttffStartRef := clock wa\<rparr>
                    in snd (setTimeout wb (BeginPlayback (videoUrl p)) (f_delay cfg))
                  else w);
            w2 = w1\<lparr>onerror := True, listeners := True\<rparr>
        in if status p = Running then
             let (h1, w3) = setInterval w2 (PlaybackUpdate (status p) (startTime p)) (Some 250);
                 w4 = w3\<lparr>intervalRef := Some h1\<rparr>;
                 (timeoutId, w5) =
                    setTimeout w4 Complete
                      (map_option (\<lambda>d. TEST_DURATION_SECONDS * 1000 + d) (f_delay cfg));
                 w6 = (if f_chaosType cfg = Some Chaos404 \<or> f_chaosType cfg = Some ChaosSpikey
                       then let (h2, w') =
                                  setInterval w5 (InjectChaos (f_errorRate cfg) (videoUrl p))
                                    (Some 3000)
                            in w'\<lparr>chaosIntervalRef := Some h2\<rparr>
                       else w5)
             in w6\<lparr>cleanup := Some (ClearTimeout timeoutId)\<rparr>
           else w2\<lparr>cleanup := Some Teardown\<rparr>)"

definition runCleanup :: "world \<Rightarrow> world" where
  "runCleanup w =
     (case cleanup w of
        None \<Rightarrow> w
      | Some (ClearTimeout timeoutId) \<Rightarrow> clearTimer w (Some timeoutId)
      | Some Teardown \<Rightarrow>
          (clearTimer (clearTimer w (intervalRef w)) (chaosIntervalRef w))\<lparr>listeners := False\<rparr>)"

text \<open>
  One render of the card followed by the commit of its effect. The card is rendered from
  the run of the registry that has its key. The first render mounts the video element
  (only the detailed view has one) and runs the effect; a later render runs the last
  cleanup and the effect again when \<^verbatim>\<open>status\<close> or \<^verbatim>\<open>startTime\<close> changed (the other
  dependencies never change); a render that no longer finds the run unmounts the card:
  the ref is cleared and the last cleanup runs. The dependency array of \<^verbatim>\<open>injectChaos\<close>
  reads \<^verbatim>\<open>config.errorRate\<close> on every render (line 135), so a render with an undefined
  \<^verbatim>\<open>config\<close> throws.
\<close>

definition render :: "world \<Rightarrow> error + world" where
  "render w =
     (if unmounted w then Inr w
      else
        (case the_sim w of
           None \<Rightarrow>
             (case props w of
                None \<Rightarrow> Inr w
              | Some old \<Rightarrow> Inr ((runCleanup (w\<lparr>videoRef := False\<rparr>))\<lparr>unmounted := True\<rparr>))
         | Some sim \<Rightarrow>
             (case config_fields (config (preset sim)) of
                Inl e \<Rightarrow> Inl e
              | Inr cfg \<Rightarrow>
                  (case props w of
                     None \<Rightarrow>
                       Inr (useEffect (w\<lparr>props := Some sim, videoRef := \<not> isMinimized sim\<rparr>)
                              sim cfg)
                   | Some old \<Rightarrow>
                       if status old = status sim \<and> startTime old = startTime sim
                       then Inr (w\<lparr>props := Some sim\<rparr>)
                       else Inr (useEffect (runCleanup (w\<lparr>props := Some sim\<rparr>)) sim cfg)))))"

subsection \<open>Events\<close>

text \<open>
  What can happen to the card: time passes, React renders it, the video element emits
  one of the five events the card subscribes to, a live timer whose time has come fires,
  or the user presses the purge button. A one-shot timer is gone once it has fired; an
  interval is due again one period later.
\<close>

datatype event =
    Tick rat
  | Render
  | Playing
  | Waiting
  | Stalled
  | CanPlay
  | Error
  | Fire nat
  | Remove

definition run_callback :: "world \<Rightarrow> callback \<Rightarrow> world" where
  "run_callback w cb =
     (case cb of
        BeginPlayback url \<Rightarrow> w\<lparr>video_src := SrcUrl url\<rparr>
      | PlaybackUpdate st st0 \<Rightarrow> handlePlaybackUpdate w st st0
      | Complete \<Rightarrow> complete w
      | InjectChaos rate url \<Rightarrow> injectChaos w rate url
      | ChaosRecover url \<Rightarrow> w\<lparr>video_src := SrcUrl url\<rparr>)"

definition fire :: "world \<Rightarrow> nat \<Rightarrow> world" where
  "fire w h =
     (case map_of (timers w) h of
        None \<Rightarrow> w
      | Some t \<Rightarrow>
          if clock w < due t then w
          else
            let rest = filter (\<lambda>e. fst e \<noteq> h) (timers w);
                w1 = (case period t of
                        None \<Rightarrow> w\<lparr>timers := rest\<rparr>
                      | Some d \<Rightarrow> w\<lparr>timers := rest @ [(h, t\<lparr>due := due t + d\<rparr>)]\<rparr>)
            in run_callback w1 (callback t))"

definition step :: "world \<Rightarrow> event \<Rightarrow> error + world" where
  "step w ev =
     (case ev of
        Tick d \<Rightarrow> Inr (if 0 \<le> d then w\<lparr>clock := clock w + d\<rparr> else w)
      | Render \<Rightarrow> render w
      | Playing \<Rightarrow> Inr (if listeners w then handleInitialPlay w else w)
      | Waiting \<Rightarrow> Inr (if listeners w then handleRebufferingStart w else w)
      | Stalled \<Rightarrow> Inr (if listeners w then handleRebufferingStart w else w)
      | CanPlay \<Rightarrow> Inr (if listeners w then handleRebufferingEnd w else w)
      | Error \<Rightarrow> Inr (if onerror w then logError w else w)
      | Fire h \<Rightarrow> Inr (fire w h)
      | Remove \<Rightarrow> Inr (onRemove w))"

fun run :: "world \<Rightarrow> event list \<Rightarrow> error + world" where
  "run w [] = Inr w"
| "run w (ev # evs) = (case step w ev of Inl e \<Rightarrow> Inl e | Inr w' \<Rightarrow> run w' evs)"

section \<open>Notions used to state and prove the properties\<close>

text \<open>
  The value the sampler stores: the percentage of line 103, rounded to one decimal by
  \<^verbatim>\<open>parseFloat(percent.toFixed(1))\<close> (line 105).
\<close>

definition stored_percent :: "rat \<Rightarrow> rat option \<Rightarrow> rat" where
  "stored_percent now st0 = toFixed 1 (percent_at now st0)"

text \<open>What \<^verbatim>\<open>handleInitialPlay\<close> does to the run's record in a given world.\<close>

definition played :: "world \<Rightarrow> simulation \<Rightarrow> simulation" where
  "played w s =
     (let s1 = (if ttffStartRef w > 0
                then s\<lparr>status := Running, ttff := Some (toFixed 2 (clock w - ttffStartRef w))\<rparr>
                else s)
      in if rebufferingTimerRef w > 0
         then s1\<lparr>rebufferingTime := rebufferingTime s1 + (clock w - rebufferingTimerRef w) / 1000\<rparr>
         else s1)"

text \<open>
  The changes one event can make to the run's record: one rule for each call of
  \<^verbatim>\<open>onUpdate\<close> in the card (lemma \<open>step_change\<close> below shows there are no others).
\<close>

inductive change :: "world \<Rightarrow> event \<Rightarrow> simulation \<Rightarrow> simulation \<Rightarrow> bool" for w :: world where
  unchanged: "change w ev s s"
| activate: "status s = Pending \<Longrightarrow> startTime s = None \<Longrightarrow>
     change w Render s (s\<lparr>startTime := Some (clock w)\<rparr>)"
| fault: "onerror w \<Longrightarrow> change w Error s (spread s (logError_update s))"
| rebuffer_start: "ev = Waiting \<or> ev = Stalled \<Longrightarrow>
     change w ev s (s\<lparr>rebufferingCount := rebufferingCount s + 1\<rparr>)"
| rebuffer_end: "listeners w \<Longrightarrow> 0 < rebufferingTimerRef w \<Longrightarrow>
     change w CanPlay s
       (s\<lparr>rebufferingTime := rebufferingTime s + (clock w - rebufferingTimerRef w) / 1000\<rparr>)"
| first_frame: "listeners w \<Longrightarrow> change w Playing s (played w s)"
| sample: "map_of (timers w) h = Some t \<Longrightarrow> callback t = PlaybackUpdate Running st0 \<Longrightarrow>
     change w (Fire h) s (s\<lparr>playbackPercent := stored_percent (clock w) st0\<rparr>)"
| completion: "map_of (timers w) h = Some t \<Longrightarrow> callback t = Complete \<Longrightarrow>
     change w (Fire h) s
       (s\<lparr>status := Completed, playbackPercent := 100, endTime := Some (clock w)\<rparr>)"

text \<open>Timer lists: after a \<^verbatim>\<open>clearInterval\<close>, after a timer has fired, and the timers the
  effect and the injector add.\<close>

definition without :: "nat option \<Rightarrow> (nat \<times> timer) list \<Rightarrow> (nat \<times> timer) list" where
  "without h ts = (case h of None \<Rightarrow> ts | Some k \<Rightarrow> filter (\<lambda>e. fst e \<noteq> k) ts)"

definition rearm :: "nat \<Rightarrow> timer \<Rightarrow> (nat \<times> timer) list \<Rightarrow> (nat \<times> timer) list" where
  "rearm h t ts =
     filter (\<lambda>e. fst e \<noteq> h) ts
     @ (case period t of None \<Rightarrow> [] | Some d \<Rightarrow> [(h, t\<lparr>due := due t + d\<rparr>)])"

definition chaotic :: "fields \<Rightarrow> bool" where
  "chaotic cfg \<longleftrightarrow> f_chaosType cfg = Some Chaos404 \<or> f_chaosType cfg = Some ChaosSpikey"

definition running_timers :: "world \<Rightarrow> simulation \<Rightarrow> fields \<Rightarrow> (nat \<times> timer) list" where
  "running_timers w p cfg =
     [(nextTimer w, \<lparr>due = clock w + 250, period = Some 250,
                      callback = PlaybackUpdate Running (startTime p)\<rparr>),
      (nextTimer w + 1,
       \<lparr>due = clock w + timeoutArg (map_option (\<lambda>d. TEST_DURATION_SECONDS * 1000 + d) (f_delay cfg)),
        period = None, callback = Complete\<rparr>)]
     @ (if chaotic cfg
        then [(nextTimer w + 2, \<lparr>due = clock w + 3000, period = Some 3000,
                 callback = InjectChaos (f_errorRate cfg) (videoUrl p)\<rparr>)]
        else [])"

definition cleaned :: "world \<Rightarrow> (nat \<times> timer) list" where
  "cleaned w =
     (case cleanup w of
        None \<Rightarrow> timers w
      | Some (ClearTimeout k) \<Rightarrow> without (Some k) (timers w)
      | Some Teardown \<Rightarrow> without (chaosIntervalRef w) (without (intervalRef w) (timers w)))"

definition swept :: "world \<Rightarrow> (nat \<times> timer) list" where
  "swept w =
     (if truthy (chaosIntervalRef w)
      then without (chaosIntervalRef w) (without (intervalRef w) (timers w))
      else without (intervalRef w) (timers w))"

definition recovery :: "world \<Rightarrow> rat option \<Rightarrow> string \<Rightarrow> (nat \<times> timer) list" where
  "recovery w rate url =
     (if (case rate of None \<Rightarrow> False | Some r \<Rightarrow> rnd w (draws w) < r) \<and> videoRef w
      then [(nextTimer w, \<lparr>due = clock w + 500, period = None, callback = ChaosRecover url\<rparr>)]
      else [])"

text \<open>
  The invariant of a card that started from a freshly created run. Every sampler closure
  holds the run's \<^verbatim>\<open>startTime\<close>; nothing has happened to a run whose \<^verbatim>\<open>startTime\<close> is
  still \<^verbatim>\<open>null\<close>; the stored percentage never exceeds what the sampler would store now;
  and the first-frame timer is disarmed once the run has been running, has a completion
  timer or has its \<^verbatim>\<open>ttff\<close>.
\<close>

definition samplers_hold :: "rat option \<Rightarrow> (nat \<times> timer) list \<Rightarrow> bool" where
  "samplers_hold st0 ts =
     list_all (\<lambda>e. case callback (snd e) of PlaybackUpdate st x \<Rightarrow> x = st0 | _ \<Rightarrow> True) ts"

definition has_completion :: "(nat \<times> timer) list \<Rightarrow> bool" where
  "has_completion ts = list_ex (\<lambda>e. callback (snd e) = Complete) ts"

definition invar :: "world \<Rightarrow> simulation \<Rightarrow> bool" where
  "invar w s \<longleftrightarrow>
     0 \<le> clock w
     \<and> (startTime s = None \<longrightarrow>
          status s = Pending \<and> playbackPercent s = 0 \<and> ttff s = None \<and> timers w = []
          \<and> ttffStartRef w \<le> 0 \<and> \<not> onerror w \<and> \<not> listeners w)
     \<and> (\<forall>t. startTime s = Some t \<longrightarrow> t \<le> clock w)
     \<and> samplers_hold (startTime s) (timers w)
     \<and> 0 \<le> playbackPercent s \<and> playbackPercent s \<le> 100
     \<and> (status s = Completed \<or> playbackPercent s \<le> stored_percent (clock w) (startTime s))
     \<and> (status s = Running \<or> status s = Completed \<or> has_completion (timers w) \<or> ttff s \<noteq> None
          \<longrightarrow> ttffStartRef w \<le> 0)"

text \<open>An open rebuffer interval was opened at or before the present time.\<close>

definition ref_ok :: "world \<Rightarrow> bool" where
  "ref_ok w \<longleftrightarrow> rebufferingTimerRef w \<le> clock w \<or> rebufferingTimerRef w \<le> 0"

text \<open>The world and the run's record after a sequence of events (\<open>None\<close> if a render threw).\<close>

definition outcome :: "world \<Rightarrow> event list \<Rightarrow> world option" where
  "outcome w evs = (case run w evs of Inl e \<Rightarrow> None | Inr w' \<Rightarrow> Some w')"

definition run_sim :: "world \<Rightarrow> event list \<Rightarrow> simulation option" where
  "run_sim w evs = (case run w evs of Inl e \<Rightarrow> None | Inr w' \<Rightarrow> the_sim w')"

text \<open>
  Two concrete starting points: a registry holding one new run with the preset
  \<^verbatim>\<open>baseline\<close>, respectively \<^verbatim>\<open>404\<close>, its card not yet rendered, the clock at 1000 ms, and
  \<^verbatim>\<open>Math.random()\<close> returning 0.05 every time.
\<close>

definition baseline_world :: world where
  "baseline_world =
     init [newSim ''r1'' ''BASELINE (STABLE) TEST'' ''https://example.org/a.mp4'' ''baseline'']
       ''r1'' 1000 (\<lambda>k. 1 / 20)"

definition chaos_world :: world where
  "chaos_world =
     init [newSim ''r1'' ''NETWORK ERROR (10%) TEST'' ''https://example.org/a.mp4'' ''404'']
       ''r1'' 1000 (\<lambda>k. 1 / 20)"

section \<open>Registry lemmas\<close>

lemma update_absent: "i \<notin> sim_id ` set prev \<Longrightarrow> handleUpdateSimulation prev i u = prev"
  unfolding handleUpdateSimulation_def by (induction prev) auto

lemma remove_absent: "i \<notin> sim_id ` set prev \<Longrightarrow> handleRemoveSimulation prev i = prev"
  unfolding handleRemoveSimulation_def by (induction prev) auto

lemma PRESETS_Some_iff:
  "(\<exists>c. PRESETS k = Some c) \<longleftrightarrow> k \<in> {''baseline'', ''latency'', ''404'', ''spikey''}"
  by (simp add: PRESETS_def)

section \<open>Lemmas about the card\<close>

subsection \<open>How each handler changes the run's record\<close>

lemma sim_id_spread [simp]: "sim_id (spread s p) = sim_id s"
  by (simp add: spread_def)

lemma spread_simps [simp]:
  "spread s (no_patch\<lparr>p_status := Some a\<rparr>) = s\<lparr>status := a\<rparr>"
  "spread s (no_patch\<lparr>p_ttff := Some b\<rparr>) = s\<lparr>ttff := Some b\<rparr>"
  "spread s (no_patch\<lparr>p_rebufferingCount := Some c\<rparr>) = s\<lparr>rebufferingCount := c\<rparr>"
  "spread s (no_patch\<lparr>p_rebufferingTime := Some d\<rparr>) = s\<lparr>rebufferingTime := d\<rparr>"
  "spread s (no_patch\<lparr>p_playbackPercent := Some e\<rparr>) = s\<lparr>playbackPercent := e\<rparr>"
  "spread s (no_patch\<lparr>p_startTime := Some f\<rparr>) = s\<lparr>startTime := Some f\<rparr>"
  "spread s (logError_update s) =
     s\<lparr>status := (if status s = Running \<or> status s = Pending then Failed else status s),
       errorCount := errorCount s + 1\<rparr>"
  "spread s (complete_update now s) =
     s\<lparr>status := Completed, playbackPercent := 100, endTime := Some now\<rparr>"
  by (simp_all add: spread_def no_patch_def logError_update_def complete_update_def)

lemma find_update:
  "find (\<lambda>s. sim_id s = i) (handleUpdateSimulation xs i u)
   = map_option (\<lambda>s. spread s (case u of Fn f \<Rightarrow> f s | Obj p \<Rightarrow> p)) (find (\<lambda>s. sim_id s = i) xs)"
  unfolding handleUpdateSimulation_def by (induction xs) auto

lemma find_remove: "find (\<lambda>s. sim_id s = i) (handleRemoveSimulation xs i) = None"
  unfolding handleRemoveSimulation_def by (induction xs) auto

lemma the_sim_cong: "simulations w' = simulations w \<Longrightarrow> card_id w' = card_id w \<Longrightarrow> the_sim w' = the_sim w"
  by (simp add: the_sim_def)

lemma the_sim_onUpdate:
  "the_sim (onUpdate w u) = map_option (\<lambda>s. spread s (case u of Fn f \<Rightarrow> f s | Obj p \<Rightarrow> p)) (the_sim w)"
  by (simp add: the_sim_def onUpdate_def find_update)

lemma the_sim_onRemove: "the_sim (onRemove w) = None"
  by (simp add: the_sim_def onRemove_def find_remove)

text \<open>Each helper as one record update of the world it is given.\<close>

lemma clearTimer_nf: "clearTimer w h = w\<lparr>timers := without h (timers w)\<rparr>"
  by (cases h) (simp_all add: clearTimer_def without_def)

lemma runCleanup_nf:
  "runCleanup w =
     w\<lparr>listeners := (if cleanup w = Some Teardown then False else listeners w),
       timers := (case cleanup w of
                    None \<Rightarrow> timers w
                  | Some (ClearTimeout k) \<Rightarrow> without (Some k) (timers w)
                  | Some Teardown \<Rightarrow> without (chaosIntervalRef w) (without (intervalRef w) (timers w)))\<rparr>"
  by (simp add: runCleanup_def clearTimer_nf split: option.splits cleanup.splits)

lemma logError_nf:
  "logError w = w\<lparr>simulations := handleUpdateSimulation (simulations w) (card_id w) (Fn logError_update)\<rparr>"
  by (simp add: logError_def onUpdate_def)

lemma handleRebufferingStart_nf:
  "handleRebufferingStart w =
     w\<lparr>simulations := handleUpdateSimulation (simulations w) (card_id w)
           (Fn (\<lambda>sim. no_patch\<lparr>p_rebufferingCount := Some (rebufferingCount sim + 1)\<rparr>)),
       rebufferingTimerRef := (if rebufferingTimerRef w = 0 then clock w else rebufferingTimerRef w)\<rparr>"
  by (simp add: handleRebufferingStart_def onUpdate_def Let_def)

lemma handleRebufferingEnd_nf:
  "handleRebufferingEnd w =
     w\<lparr>simulations :=
         (if rebufferingTimerRef w > 0
          then handleUpdateSimulation (simulations w) (card_id w)
                 (Fn (\<lambda>sim. no_patch\<lparr>p_rebufferingTime :=
                        Some (rebufferingTime sim + (clock w - rebufferingTimerRef w) / 1000)\<rparr>))
          else simulations w),
       rebufferingTimerRef := (if rebufferingTimerRef w > 0 then 0 else rebufferingTimerRef w)\<rparr>"
  by (simp add: handleRebufferingEnd_def onUpdate_def Let_def)

lemma the_sim_logError:
  "the_sim (logError w) = map_option (\<lambda>s. spread s (logError_update s)) (the_sim w)"
  by (simp add: logError_def the_sim_onUpdate)

lemma the_sim_start:
  "the_sim (handleRebufferingStart w)
   = map_option (\<lambda>s. s\<lparr>rebufferingCount := rebufferingCount s + 1\<rparr>) (the_sim w)"
  by (simp add: handleRebufferingStart_def the_sim_onUpdate Let_def
      the_sim_cong [of "w\<lparr>rebufferingTimerRef := clock w\<rparr>" w])

lemma the_sim_end:
  "the_sim (handleRebufferingEnd w)
   = (if rebufferingTimerRef w > 0
      then map_option (\<lambda>s. s\<lparr>rebufferingTime :=
              rebufferingTime s + (clock w - rebufferingTimerRef w) / 1000\<rparr>) (the_sim w)
      else the_sim w)"
  by (simp add: handleRebufferingEnd_nf the_sim_def find_update)

lemma the_sim_playback:
  "the_sim (handlePlaybackUpdate w st st0)
   = (if videoRef w \<and> st = Running
      then map_option (\<lambda>s. s\<lparr>playbackPercent := stored_percent (clock w) st0\<rparr>) (the_sim w)
      else the_sim w)"
  by (simp add: handlePlaybackUpdate_def the_sim_onUpdate stored_percent_def)

lemma handleInitialPlay_nf:
  "handleInitialPlay w =
     w\<lparr>simulations :=
         (let sims1 = (if ttffStartRef w > 0
                       then handleUpdateSimulation
                              (handleUpdateSimulation (simulations w) (card_id w)
                                 (Obj (no_patch\<lparr>p_ttff := Some (toFixed 2 (clock w - ttffStartRef w))\<rparr>)))
                              (card_id w) (Obj (no_patch\<lparr>p_status := Some Running\<rparr>))
                       else simulations w)
          in if rebufferingTimerRef w > 0
             then handleUpdateSimulation sims1 (card_id w)
                    (Fn (\<lambda>sim. no_patch\<lparr>p_rebufferingTime :=
                           Some (rebufferingTime sim + (clock w - rebufferingTimerRef w) / 1000)\<rparr>))
             else sims1),
       rebufferingTimerRef := (if rebufferingTimerRef w > 0 then 0 else rebufferingTimerRef w),
       ttffStartRef := (if ttffStartRef w > 0 then 0 else ttffStartRef w)\<rparr>"
  by (simp add: handleInitialPlay_def handleRebufferingEnd_nf updateStatus_def onUpdate_def Let_def)

lemma the_sim_play: "the_sim (handleInitialPlay w) = map_option (played w) (the_sim w)"
  by (cases "the_sim w")
     (simp_all add: handleInitialPlay_nf the_sim_def find_update played_def Let_def)

lemma complete_nf:
  "complete w =
     w\<lparr>simulations := handleUpdateSimulation (simulations w) (card_id w)
                         (Fn (complete_update (clock w))),
       video_src := SrcEmpty,
       timers := (if truthy (chaosIntervalRef w)
                  then without (chaosIntervalRef w) (without (intervalRef w) (timers w))
                  else without (intervalRef w) (timers w))\<rparr>"
  by (simp add: complete_def clearTimer_nf onUpdate_def Let_def)

lemma the_sim_complete:
  "the_sim (complete w)
   = map_option (\<lambda>s. s\<lparr>status := Completed, playbackPercent := 100, endTime := Some (clock w)\<rparr>)
       (the_sim w)"
  by (simp add: complete_nf the_sim_def find_update)

lemma injectChaos_nf:
  "injectChaos w rate url =
     (let hit = (case rate of None \<Rightarrow> False | Some r \<Rightarrow> rnd w (draws w) < r) \<and> videoRef w
      in w\<lparr>draws := (if hit then draws w + 2 else draws w + 1),
           faults := (if hit then faults w + 1 else faults w),
           video_src := (if hit then SrcInvalid (rnd w (draws w + 1)) else video_src w),
           timers := (if hit
                      then timers w @ [(nextTimer w, \<lparr>due = clock w + 500, period = None,
                                                     callback = ChaosRecover url\<rparr>)]
                      else timers w),
           nextTimer := (if hit then nextTimer w + 1 else nextTimer w)\<rparr>)"
  by (simp add: injectChaos_def Math_random_def setTimeout_def setTimer_def timeoutArg_def Let_def)

subsection \<open>Rounding\<close>

lemma toFixed_mono: "x \<le> y \<Longrightarrow> toFixed d x \<le> toFixed d y"
proof -
  assume xy: "x \<le> y"
  have c: "(0::rat) < 10 ^ d" by simp
  consider "x < 0" "y < 0" | "x < 0" "0 \<le> y" | "0 \<le> x" "0 \<le> y" using xy by linarith
  then show ?thesis
  proof cases
    case 1
    have "- y * 10 ^ d \<le> - x * 10 ^ d" using xy c by (simp add: mult_right_mono)
    then have "round (- y * 10 ^ d) \<le> round (- x * 10 ^ d)" by (rule round_mono)
    then have "(of_int (round (- y * 10 ^ d)) :: rat) \<le> of_int (round (- x * 10 ^ d))" by simp
    then show ?thesis using 1 c by (simp add: toFixed_def divide_right_mono)
  next
    case 2
    have "0 \<le> (- x) * 10 ^ d" using 2 by (intro mult_nonneg_nonneg) auto
    then have "round (0::rat) \<le> round (- x * 10 ^ d)" by (rule round_mono)
    then have a: "(0::rat) \<le> of_int (round (- x * 10 ^ d))" by simp
    have "0 \<le> y * 10 ^ d" using 2 c by simp
    then have "round (0::rat) \<le> round (y * 10 ^ d)" by (rule round_mono)
    then have b: "(0::rat) \<le> of_int (round (y * 10 ^ d))" by simp
    have "- (of_int (round (- x * 10 ^ d)) / 10 ^ d) \<le> (0::rat)" using a c by simp
    moreover have "(0::rat) \<le> of_int (round (y * 10 ^ d)) / 10 ^ d" using b c by simp
    ultimately show ?thesis using 2 by (simp add: toFixed_def)
  next
    case 3
    have "x * 10 ^ d \<le> y * 10 ^ d" using xy c by (simp add: mult_right_mono)
    then have "round (x * 10 ^ d) \<le> round (y * 10 ^ d)" by (rule round_mono)
    then have "(of_int (round (x * 10 ^ d)) :: rat) \<le> of_int (round (y * 10 ^ d))" by simp
    then show ?thesis using 3 c by (simp add: toFixed_def divide_right_mono)
  qed
qed

lemma toFixed_0 [simp]: "toFixed d 0 = 0"
  by (simp add: toFixed_def)

lemma toFixed_100 [simp]: "toFixed (Suc 0) 100 = 100"
  by (simp add: toFixed_def)

lemma percent_at_mono: "a \<le> b \<Longrightarrow> percent_at a st0 \<le> percent_at b st0"
  by (auto simp: percent_at_def TEST_DURATION_SECONDS_def Let_def min_def divide_right_mono)

lemma percent_at_range: "t \<le> now \<Longrightarrow> 0 \<le> percent_at now (Some t) \<and> percent_at now (Some t) \<le> 100"
  by (simp add: percent_at_def TEST_DURATION_SECONDS_def Let_def)

lemma stored_percent_mono: "a \<le> b \<Longrightarrow> stored_percent a st0 \<le> stored_percent b st0"
  by (simp add: stored_percent_def toFixed_mono percent_at_mono)

lemma stored_percent_range:
  assumes "t \<le> now"
  shows "0 \<le> stored_percent now (Some t) \<and> stored_percent now (Some t) \<le> 100"
proof -
  have "toFixed 1 0 \<le> toFixed 1 (percent_at now (Some t))"
    using assms percent_at_range by (intro toFixed_mono) simp
  moreover have "toFixed 1 (percent_at now (Some t)) \<le> toFixed 1 100"
    using assms percent_at_range by (intro toFixed_mono) simp
  ultimately show ?thesis by (simp add: stored_percent_def)
qed

lemma stored_percent_start [simp]: "stored_percent t (Some t) = 0"
  by (simp add: stored_percent_def percent_at_def)

subsection \<open>Timers\<close>

lemma samplers_hold_simps [simp]:
  "samplers_hold st0 []"
  "samplers_hold st0 (ts @ us) \<longleftrightarrow> samplers_hold st0 ts \<and> samplers_hold st0 us"
  "samplers_hold st0 (e # ts) \<longleftrightarrow>
     (case callback (snd e) of PlaybackUpdate st x \<Rightarrow> x = st0 | _ \<Rightarrow> True) \<and> samplers_hold st0 ts"
  by (simp_all add: samplers_hold_def)

lemma samplers_hold_filter: "samplers_hold st0 ts \<Longrightarrow> samplers_hold st0 (filter P ts)"
  by (induction ts) (auto simp: samplers_hold_def)

lemma samplers_hold_without: "samplers_hold st0 ts \<Longrightarrow> samplers_hold st0 (without h ts)"
  by (cases h) (simp_all add: without_def samplers_hold_filter)

lemma samplers_hold_lookup:
  "samplers_hold st0 ts \<Longrightarrow> map_of ts h = Some t \<Longrightarrow> callback t = PlaybackUpdate st x \<Longrightarrow> x = st0"
  by (induction ts) (auto simp: samplers_hold_def split: if_splits)

lemma samplers_hold_rearm:
  "samplers_hold st0 ts \<Longrightarrow> map_of ts h = Some t \<Longrightarrow> samplers_hold st0 (rearm h t ts)"
  using samplers_hold_lookup [of st0 ts h t]
  by (auto simp: rearm_def samplers_hold_filter split: option.splits callback.splits)

lemma has_completion_simps [simp]:
  "\<not> has_completion []"
  "has_completion (ts @ us) \<longleftrightarrow> has_completion ts \<or> has_completion us"
  "has_completion (e # ts) \<longleftrightarrow> callback (snd e) = Complete \<or> has_completion ts"
  by (simp_all add: has_completion_def)

lemma has_completion_filter: "has_completion (filter P ts) \<Longrightarrow> has_completion ts"
  by (induction ts) (auto simp: has_completion_def split: if_splits)

lemma has_completion_without: "has_completion (without h ts) \<Longrightarrow> has_completion ts"
  by (cases h) (auto simp: without_def dest: has_completion_filter)

lemma has_completion_lookup: "map_of ts h = Some t \<Longrightarrow> callback t = Complete \<Longrightarrow> has_completion ts"
  by (induction ts) (auto simp: has_completion_def split: if_splits)

lemma has_completion_rearm:
  "has_completion (rearm h t ts) \<Longrightarrow> map_of ts h = Some t \<Longrightarrow> has_completion ts"
  by (auto simp: rearm_def has_completion_lookup dest: has_completion_filter split: option.splits)

subsection \<open>The cases of a render and of a timer firing\<close>

lemma render_cases:
  assumes "render w = Inr w'"
  obtains (idle) "w' = w"
  | (unmount) "the_sim w = None" "w' = (runCleanup (w\<lparr>videoRef := False\<rparr>))\<lparr>unmounted := True\<rparr>"
  | (mount) sim cfg where "the_sim w = Some sim" "props w = None"
      "w' = useEffect (w\<lparr>props := Some sim, videoRef := \<not> isMinimized sim\<rparr>) sim cfg"
  | (same) sim where "the_sim w = Some sim" "w' = w\<lparr>props := Some sim\<rparr>"
  | (again) sim cfg where "the_sim w = Some sim"
      "w' = useEffect (runCleanup (w\<lparr>props := Some sim\<rparr>)) sim cfg"
proof (cases "unmounted w")
  case True
  then have "w' = w" using assms by (simp add: render_def)
  then show ?thesis by (rule idle)
next
  case live: False
  show ?thesis
  proof (cases "the_sim w")
    case None
    show ?thesis
    proof (cases "props w")
      case np: None
      have "w' = w" using assms live None np by (simp add: render_def)
      then show ?thesis by (rule idle)
    next
      case (Some old)
      have "w' = (runCleanup (w\<lparr>videoRef := False\<rparr>))\<lparr>unmounted := True\<rparr>"
        using assms live None Some by (simp add: render_def)
      with None show ?thesis by (rule unmount)
    qed
  next
    case (Some sim)
    show ?thesis
    proof (cases "config_fields (config (preset sim))")
      case (Inl e)
      then show ?thesis using assms live Some by (simp add: render_def)
    next
      case (Inr cfg)
      show ?thesis
      proof (cases "props w")
        case None
        have "w' = useEffect (w\<lparr>props := Some sim, videoRef := \<not> isMinimized sim\<rparr>) sim cfg"
          using assms live Some Inr None by (simp add: render_def)
        with Some None show ?thesis by (rule mount)
      next
        case old: (Some old)
        show ?thesis
        proof (cases "status old = status sim \<and> startTime old = startTime sim")
          case True
          have "w' = w\<lparr>props := Some sim\<rparr>"
            using True assms live Some Inr old by (simp add: render_def)
          with Some show ?thesis by (rule same)
        next
          case False
          have "w' = useEffect (runCleanup (w\<lparr>props := Some sim\<rparr>)) sim cfg"
            using False assms live Some Inr old by (auto simp: render_def split: if_splits)
          with Some show ?thesis by (rule again)
        qed
      qed
    qed
  qed
qed

lemma fire_nf:
  "fire w h =
     (case map_of (timers w) h of
        None \<Rightarrow> w
      | Some t \<Rightarrow> if clock w < due t then w
                  else run_callback (w\<lparr>timers := rearm h t (timers w)\<rparr>) (callback t))"
  by (auto simp: fire_def rearm_def Let_def split: option.splits)

subsection \<open>The four cases of the effect\<close>

lemma useEffect_hidden: "\<not> videoRef w \<Longrightarrow> useEffect w p cfg = w\<lparr>cleanup := None\<rparr>"
  by (simp add: useEffect_def)

lemma useEffect_running:
  "videoRef w \<Longrightarrow> status p = Running \<Longrightarrow>
   useEffect w p cfg =
     w\<lparr>onerror := True, listeners := True,
       intervalRef := Some (nextTimer w),
       chaosIntervalRef := (if chaotic cfg then Some (nextTimer w + 2) else chaosIntervalRef w),
       cleanup := Some (ClearTimeout (nextTimer w + 1)),
       timers := timers w @ running_timers w p cfg,
       nextTimer := nextTimer w + length (running_timers w p cfg)\<rparr>"
  by (simp add: useEffect_def setTimeout_def setInterval_def setTimer_def Let_def
      timeoutArg_def split_def chaotic_def running_timers_def)

lemma useEffect_activate:
  "videoRef w \<Longrightarrow> status p = Pending \<Longrightarrow> startTime p = None \<Longrightarrow>
   useEffect w p cfg =
     w\<lparr>simulations := handleUpdateSimulation (simulations w) (card_id w)
                         (Obj (no_patch\<lparr>p_startTime := Some (clock w)\<rparr>)),
       onerror := True, listeners := True, ttffStartRef := clock w,
       cleanup := Some Teardown,
       timers := timers w @ [(nextTimer w, \<lparr>due = clock w + timeoutArg (f_delay cfg),
                         period = None, callback = BeginPlayback (videoUrl p)\<rparr>)],
       nextTimer := nextTimer w + 1\<rparr>"
  by (simp add: useEffect_def setTimeout_def setTimer_def onUpdate_def Let_def)

lemma useEffect_other:
  "videoRef w \<Longrightarrow> status p \<noteq> Running \<Longrightarrow> \<not> (status p = Pending \<and> startTime p = None) \<Longrightarrow>
   useEffect w p cfg = w\<lparr>onerror := True, listeners := True, cleanup := Some Teardown\<rparr>"
  by (cases "startTime p") (auto simp add: useEffect_def)

lemma running_timers_facts [simp]:
  "samplers_hold st0 (running_timers w p cfg) \<longleftrightarrow> startTime p = st0"
  "has_completion (running_timers w p cfg)"
  by (simp_all add: running_timers_def)

lemma runCleanup_eq:
  "runCleanup w =
     w\<lparr>listeners := (if cleanup w = Some Teardown then False else listeners w),
       timers := cleaned w\<rparr>"
  by (simp add: runCleanup_nf cleaned_def)

lemma cleaned_facts:
  "samplers_hold st0 (timers w) \<Longrightarrow> samplers_hold st0 (cleaned w)"
  "has_completion (cleaned w) \<Longrightarrow> has_completion (timers w)"
  "timers w = [] \<Longrightarrow> cleaned w = []"
  by (auto simp: cleaned_def without_def samplers_hold_without samplers_hold_filter
      dest: has_completion_without has_completion_filter split: option.splits cleanup.splits)

lemma invar_runCleanup:
  assumes "invar w s"
  shows "invar (runCleanup w) s"
proof -
  have 1: "samplers_hold (startTime s) (cleaned w)"
    using assms by (simp add: invar_def cleaned_facts)
  have 2: "has_completion (cleaned w) \<longrightarrow> has_completion (timers w)"
    by (simp add: cleaned_facts)
  have 3: "timers w = [] \<longrightarrow> cleaned w = []"
    by (simp add: cleaned_facts)
  show ?thesis
    using assms 1 2 3 unfolding runCleanup_eq invar_def by auto
qed

lemma the_sim_runCleanup: "the_sim (runCleanup w) = the_sim w"
  by (simp add: runCleanup_nf the_sim_def)

lemma the_sim_useEffect:
  "the_sim (useEffect w p cfg)
   = (if videoRef w \<and> status p = Pending \<and> startTime p = None
      then map_option (\<lambda>s. s\<lparr>startTime := Some (clock w)\<rparr>) (the_sim w)
      else the_sim w)"
proof (cases "videoRef w")
  case False
  then show ?thesis by (simp add: useEffect_hidden the_sim_def)
next
  case True
  show ?thesis
  proof (cases "status p = Running")
    case run: True
    then show ?thesis using True by (simp add: useEffect_running the_sim_def)
  next
    case False
    show ?thesis
    proof (cases "status p = Pending \<and> startTime p = None")
      case act: True
      then show ?thesis using True
        by (simp add: useEffect_activate the_sim_def find_update)
    next
      case nact: False
      then show ?thesis using True False by (auto simp add: useEffect_other the_sim_def)
    qed
  qed
qed

lemma invar_useEffect:
  assumes "invar w s" "the_sim w = Some s" "the_sim (useEffect w s cfg) = Some s'"
  shows "invar (useEffect w s cfg) s'"
proof (cases "videoRef w")
  case False
  then have "useEffect w s cfg = w\<lparr>cleanup := None\<rparr>" by (rule useEffect_hidden)
  moreover have "s' = s" using assms False by (simp add: the_sim_useEffect)
  ultimately show ?thesis using assms(1) by (simp add: invar_def)
next
  case True
  show ?thesis
  proof (cases "status s = Running")
    case run: True
    then have s': "s' = s" using assms by (simp add: the_sim_useEffect)
    have st: "startTime s \<noteq> None" using assms(1) run by (auto simp: invar_def)
    show ?thesis
      unfolding s' using assms(1) st run True by (simp add: useEffect_running invar_def)
  next
    case False
    show ?thesis
    proof (cases "status s = Pending \<and> startTime s = None")
      case act: True
      then have s': "s' = s\<lparr>startTime := Some (clock w)\<rparr>"
        using assms True by (simp add: the_sim_useEffect)
      from act have a: "status s = Pending" "startTime s = None" by simp_all
      show ?thesis
        unfolding s' using assms(1) a True by (simp add: useEffect_activate invar_def)
    next
      case nact: False
      then have s': "s' = s" using assms by (auto simp: the_sim_useEffect)
      have st: "startTime s \<noteq> None" using assms(1) nact by (auto simp: invar_def)
      show ?thesis
        unfolding s' using assms(1) st by (simp add: useEffect_other [OF True False nact] invar_def)
    qed
  qed
qed

lemma invar_render:
  assumes "invar w s" "the_sim w = Some s" "render w = Inr w'" "the_sim w' = Some s'"
  shows "invar w' s'"
  using assms(3)
proof (cases rule: render_cases)
  case idle
  then show ?thesis using assms by simp
next
  case unmount
  then show ?thesis using assms by simp
next
  case (mount sim cfg)
  let ?w = "w\<lparr>props := Some sim, videoRef := \<not> isMinimized sim\<rparr>"
  have "invar ?w s" using assms(1) by (simp add: invar_def)
  moreover have "the_sim ?w = Some s" using assms(2) by (simp add: the_sim_def)
  ultimately show ?thesis using invar_useEffect [of ?w s cfg s'] mount assms by simp
next
  case (same sim)
  then have "s' = s" using assms by (simp add: the_sim_def)
  then show ?thesis using assms(1) same by (simp add: invar_def)
next
  case (again sim cfg)
  let ?w = "runCleanup (w\<lparr>props := Some sim\<rparr>)"
  have "invar (w\<lparr>props := Some sim\<rparr>) s" using assms(1) by (simp add: invar_def)
  then have "invar ?w s" by (rule invar_runCleanup)
  moreover have "the_sim ?w = Some s" using assms(2) by (simp add: the_sim_runCleanup) (simp add: the_sim_def)
  ultimately show ?thesis using invar_useEffect [of ?w s cfg s'] again assms by simp
qed

subsection \<open>What the handlers leave alone\<close>

lemma logError_frame [simp]:
  "clock (logError w) = clock w" "timers (logError w) = timers w"
  "ttffStartRef (logError w) = ttffStartRef w"
  "rebufferingTimerRef (logError w) = rebufferingTimerRef w"
  "onerror (logError w) = onerror w" "listeners (logError w) = listeners w"
  by (simp_all add: logError_nf)

lemma handleRebufferingStart_frame [simp]:
  "clock (handleRebufferingStart w) = clock w" "timers (handleRebufferingStart w) = timers w"
  "ttffStartRef (handleRebufferingStart w) = ttffStartRef w"
  "rebufferingTimerRef (handleRebufferingStart w)
     = (if rebufferingTimerRef w = 0 then clock w else rebufferingTimerRef w)"
  "onerror (handleRebufferingStart w) = onerror w"
  "listeners (handleRebufferingStart w) = listeners w"
  by (simp_all add: handleRebufferingStart_nf)

lemma handleRebufferingEnd_frame [simp]:
  "clock (handleRebufferingEnd w) = clock w" "timers (handleRebufferingEnd w) = timers w"
  "ttffStartRef (handleRebufferingEnd w) = ttffStartRef w"
  "rebufferingTimerRef (handleRebufferingEnd w)
     = (if rebufferingTimerRef w > 0 then 0 else rebufferingTimerRef w)"
  "onerror (handleRebufferingEnd w) = onerror w"
  "listeners (handleRebufferingEnd w) = listeners w"
  by (simp_all add: handleRebufferingEnd_nf)

lemma handleInitialPlay_frame [simp]:
  "clock (handleInitialPlay w) = clock w" "timers (handleInitialPlay w) = timers w"
  "ttffStartRef (handleInitialPlay w) = (if ttffStartRef w > 0 then 0 else ttffStartRef w)"
  "rebufferingTimerRef (handleInitialPlay w)
     = (if rebufferingTimerRef w > 0 then 0 else rebufferingTimerRef w)"
  "onerror (handleInitialPlay w) = onerror w"
  "listeners (handleInitialPlay w) = listeners w"
  by (simp_all add: handleInitialPlay_nf)

lemma handlePlaybackUpdate_frame [simp]:
  "clock (handlePlaybackUpdate w st st0) = clock w"
  "timers (handlePlaybackUpdate w st st0) = timers w"
  "ttffStartRef (handlePlaybackUpdate w st st0) = ttffStartRef w"
  "rebufferingTimerRef (handlePlaybackUpdate w st st0) = rebufferingTimerRef w"
  "onerror (handlePlaybackUpdate w st st0) = onerror w"
  "listeners (handlePlaybackUpdate w st st0) = listeners w"
  by (simp_all add: handlePlaybackUpdate_def onUpdate_def)

lemma swept_facts:
  "samplers_hold st0 (timers w) \<Longrightarrow> samplers_hold st0 (swept w)"
  "has_completion (swept w) \<Longrightarrow> has_completion (timers w)"
  by (auto simp: swept_def samplers_hold_without dest: has_completion_without split: if_splits)

lemma complete_frame [simp]:
  "clock (complete w) = clock w" "timers (complete w) = swept w"
  "ttffStartRef (complete w) = ttffStartRef w"
  "rebufferingTimerRef (complete w) = rebufferingTimerRef w"
  "onerror (complete w) = onerror w" "listeners (complete w) = listeners w"
  by (simp_all add: complete_nf swept_def)

lemma recovery_facts [simp]:
  "samplers_hold st0 (recovery w rate url)" "\<not> has_completion (recovery w rate url)"
  by (simp_all add: recovery_def)

lemma injectChaos_frame [simp]:
  "clock (injectChaos w rate url) = clock w"
  "timers (injectChaos w rate url) = timers w @ recovery w rate url"
  "ttffStartRef (injectChaos w rate url) = ttffStartRef w"
  "rebufferingTimerRef (injectChaos w rate url) = rebufferingTimerRef w"
  "onerror (injectChaos w rate url) = onerror w"
  "listeners (injectChaos w rate url) = listeners w"
  by (simp_all add: injectChaos_nf recovery_def Let_def)

lemma the_sim_injectChaos: "the_sim (injectChaos w rate url) = the_sim w"
  by (simp add: injectChaos_nf the_sim_def Let_def)

lemma useEffect_frame:
  "clock (useEffect w p cfg) = clock w"
  "rebufferingTimerRef (useEffect w p cfg) = rebufferingTimerRef w"
proof -
  consider "\<not> videoRef w" | "videoRef w" "status p = Running"
    | "videoRef w" "status p = Pending" "startTime p = None"
    | "videoRef w" "status p \<noteq> Running" "\<not> (status p = Pending \<and> startTime p = None)"
    by (cases "status p") auto
  then show "clock (useEffect w p cfg) = clock w"
    by cases (simp_all add: useEffect_hidden useEffect_running useEffect_activate useEffect_other)
  consider "\<not> videoRef w" | "videoRef w" "status p = Running"
    | "videoRef w" "status p = Pending" "startTime p = None"
    | "videoRef w" "status p \<noteq> Running" "\<not> (status p = Pending \<and> startTime p = None)"
    by (cases "status p") auto
  then show "rebufferingTimerRef (useEffect w p cfg) = rebufferingTimerRef w"
    by cases (simp_all add: useEffect_hidden useEffect_running useEffect_activate useEffect_other)
qed

lemma render_frame:
  assumes "render w = Inr w'"
  shows "clock w' = clock w \<and> rebufferingTimerRef w' = rebufferingTimerRef w"
  using assms
  by (cases rule: render_cases) (simp_all add: useEffect_frame runCleanup_eq)

lemma run_callback_frame:
  "clock (run_callback w cb) = clock w"
  "rebufferingTimerRef (run_callback w cb) = rebufferingTimerRef w"
  by (cases cb; simp add: run_callback_def)+

lemma fire_frame:
  "clock (fire w h) = clock w" "rebufferingTimerRef (fire w h) = rebufferingTimerRef w"
  by (simp_all add: fire_nf run_callback_frame split: option.splits)

subsection \<open>Every step keeps the invariant\<close>

lemma invar_tick:
  assumes "invar w s" "0 \<le> d"
  shows "invar (w\<lparr>clock := clock w + d\<rparr>) s"
proof -
  have "stored_percent (clock w) (startTime s) \<le> stored_percent (clock w + d) (startTime s)"
    using assms(2) by (intro stored_percent_mono) simp
  then show ?thesis using assms by (auto simp: invar_def)
qed

lemma invar_error:
  assumes "invar w s" "onerror w"
  shows "invar (logError w)
           (s\<lparr>status := (if status s = Running \<or> status s = Pending then Failed else status s),
              errorCount := errorCount s + 1\<rparr>)"
  using assms by (auto simp: invar_def)

lemma invar_start:
  assumes "invar w s"
  shows "invar (handleRebufferingStart w) (s\<lparr>rebufferingCount := rebufferingCount s + 1\<rparr>)"
  using assms by (simp add: invar_def)

lemma invar_end:
  assumes "invar w s"
  shows "invar (handleRebufferingEnd w) (s\<lparr>rebufferingTime := x\<rparr>)"
    and "invar (handleRebufferingEnd w) s"
  using assms by (simp_all add: invar_def)

lemma invar_play:
  assumes "invar w s" "listeners w"
  shows "invar (handleInitialPlay w) (played w s)"
proof -
  have st: "startTime s \<noteq> None" using assms by (auto simp: invar_def)
  show ?thesis
  proof (cases "ttffStartRef w > 0")
    case True
    then have "status s \<noteq> Completed" using assms(1) by (auto simp: invar_def)
    then show ?thesis using assms(1) st True by (auto simp: invar_def played_def Let_def)
  next
    case False
    then show ?thesis using assms(1) st by (auto simp: invar_def played_def Let_def)
  qed
qed

lemma invar_fire:
  assumes "invar w s" "the_sim w = Some s" "the_sim (fire w h) = Some s'"
  shows "invar (fire w h) s'"
proof (cases "map_of (timers w) h")
  case None
  then show ?thesis using assms by (simp add: fire_nf)
next
  case (Some t)
  show ?thesis
  proof (cases "clock w < due t")
    case True
    then show ?thesis using assms Some by (simp add: fire_nf)
  next
    case False
    define w1 where "w1 = w\<lparr>timers := rearm h t (timers w)\<rparr>"
    have f: "fire w h = run_callback w1 (callback t)"
      using Some False by (simp add: fire_nf w1_def)
    have st: "startTime s \<noteq> None"
      using assms(1) Some by (auto simp: invar_def)
    then obtain t0 where t0: "startTime s = Some t0" by auto
    have t0': "t0 \<le> clock w" using assms(1) t0 by (simp add: invar_def)
    have i1: "invar w1 s"
      using assms(1) t0 samplers_hold_rearm [OF _ Some, of "startTime s"]
        has_completion_rearm [OF _ Some]
      by (auto simp: invar_def w1_def)
    have s1: "the_sim w1 = Some s" using assms(2) by (simp add: w1_def the_sim_def)
    have w1: "clock w1 = clock w" "videoRef w1 = videoRef w" "ttffStartRef w1 = ttffStartRef w"
      by (simp_all add: w1_def)
    show ?thesis
    proof (cases "callback t")
      case (BeginPlayback url)
      then have "fire w h = w1\<lparr>video_src := SrcUrl url\<rparr>" using f by (simp add: run_callback_def)
      moreover from this have "s' = s" using assms(3) s1 by (simp add: the_sim_def)
      ultimately show ?thesis using i1 by (simp add: invar_def)
    next
      case (PlaybackUpdate st st0)
      have eq: "st0 = startTime s"
        using assms(1) Some PlaybackUpdate samplers_hold_lookup [of "startTime s" "timers w" h t st st0]
        by (simp add: invar_def)
      have f2: "fire w h = handlePlaybackUpdate w1 st st0"
        using f PlaybackUpdate by (simp add: run_callback_def)
      show ?thesis
      proof (cases "videoRef w1 \<and> st = Running")
        case True
        then have s': "s' = s\<lparr>playbackPercent := stored_percent (clock w) (startTime s)\<rparr>"
          using assms(3) s1 f2 eq w1 by (simp add: the_sim_playback)
        have "0 \<le> stored_percent (clock w) (startTime s) \<and> stored_percent (clock w) (startTime s) \<le> 100"
          using t0 t0' stored_percent_range by simp
        then show ?thesis unfolding f2 s' using i1 w1 t0 by (simp add: invar_def)
      next
        case False
        then have "s' = s" using assms(3) s1 f2 by (auto simp: the_sim_playback)
        then show ?thesis unfolding f2 using i1 by (simp add: invar_def)
      qed
    next
      case Complete
      have f2: "fire w h = complete w1" using f Complete by (simp add: run_callback_def)
      have s': "s' = s\<lparr>status := Completed, playbackPercent := 100, endTime := Some (clock w)\<rparr>"
        using assms(3) s1 f2 w1 by (simp add: the_sim_complete)
      have "has_completion (timers w)" using Some Complete by (rule has_completion_lookup)
      then have r: "ttffStartRef w \<le> 0" using assms(1) by (simp add: invar_def)
      have a: "samplers_hold (startTime s) (swept w1)" using i1 by (simp add: invar_def swept_facts)
      show ?thesis unfolding f2 s' using i1 w1 r t0 a by (simp add: invar_def)
    next
      case (InjectChaos rate url)
      have f2: "fire w h = injectChaos w1 rate url" using f InjectChaos by (simp add: run_callback_def)
      have "s' = s" using assms(3) s1 f2 by (simp add: the_sim_injectChaos)
      then show ?thesis unfolding f2 using i1 t0 by (simp add: invar_def)
    next
      case (ChaosRecover url)
      then have "fire w h = w1\<lparr>video_src := SrcUrl url\<rparr>" using f by (simp add: run_callback_def)
      moreover from this have "s' = s" using assms(3) s1 by (simp add: the_sim_def)
      ultimately show ?thesis using i1 by (simp add: invar_def)
    qed
  qed
qed

lemma invar_step:
  assumes "invar w s" "the_sim w = Some s" "step w ev = Inr w'" "the_sim w' = Some s'"
  shows "invar w' s'"
proof (cases ev)
  case (Tick d)
  then have "s' = s" using assms by (auto simp: step_def the_sim_def split: if_splits)
  then show ?thesis using assms Tick invar_tick [of w s d] by (auto simp: step_def split: if_splits)
next
  case Render
  then show ?thesis using assms invar_render [of w s w' s'] by (simp add: step_def)
next
  case Playing
  show ?thesis
  proof (cases "listeners w")
    case True
    then have "w' = handleInitialPlay w" "s' = played w s"
      using assms Playing by (auto simp: step_def the_sim_play)
    then show ?thesis using invar_play [OF assms(1) True] by simp
  next
    case False
    then show ?thesis using assms Playing by (auto simp: step_def)
  qed
next
  case Waiting
  show ?thesis
  proof (cases "listeners w")
    case True
    then have "w' = handleRebufferingStart w" "s' = s\<lparr>rebufferingCount := rebufferingCount s + 1\<rparr>"
      using assms Waiting by (auto simp: step_def the_sim_start)
    then show ?thesis using invar_start [OF assms(1)] by simp
  next
    case False
    then show ?thesis using assms Waiting by (auto simp: step_def)
  qed
next
  case Stalled
  show ?thesis
  proof (cases "listeners w")
    case True
    then have "w' = handleRebufferingStart w" "s' = s\<lparr>rebufferingCount := rebufferingCount s + 1\<rparr>"
      using assms Stalled by (auto simp: step_def the_sim_start)
    then show ?thesis using invar_start [OF assms(1)] by simp
  next
    case False
    then show ?thesis using assms Stalled by (auto simp: step_def)
  qed
next
  case CanPlay
  show ?thesis
  proof (cases "listeners w")
    case True
    then have "w' = handleRebufferingEnd w" using assms CanPlay by (auto simp: step_def)
    then show ?thesis using invar_end [OF assms(1)] assms(2,4)
      by (auto simp: the_sim_end split: if_splits)
  next
    case False
    then show ?thesis using assms CanPlay by (auto simp: step_def)
  qed
next
  case Error
  show ?thesis
  proof (cases "onerror w")
    case True
    then have "w' = logError w" using assms Error by (auto simp: step_def)
    then show ?thesis using invar_error [OF assms(1) True] assms(2,4)
      by (auto simp: the_sim_logError)
  next
    case False
    then show ?thesis using assms Error by (auto simp: step_def)
  qed
next
  case (Fire h)
  then show ?thesis using assms invar_fire [of w s h s'] by (simp add: step_def)
next
  case Remove
  then have "w' = onRemove w" using assms(3) by (simp add: step_def)
  then have "the_sim w' = None" by (simp add: the_sim_onRemove)
  then show ?thesis using assms(4) by simp
qed

subsection \<open>Steps and runs\<close>

lemma the_sim_frame [simp]:
  "the_sim (w\<lparr>clock := a\<rparr>) = the_sim w"
  "the_sim (w\<lparr>props := b\<rparr>) = the_sim w"
  "the_sim (w\<lparr>unmounted := c\<rparr>) = the_sim w"
  "the_sim (w\<lparr>videoRef := d\<rparr>) = the_sim w"
  "the_sim (w\<lparr>video_src := e\<rparr>) = the_sim w"
  "the_sim (w\<lparr>timers := f\<rparr>) = the_sim w"
  by (simp_all add: the_sim_def)

lemma stored_percent_nonneg: "0 \<le> now \<Longrightarrow> 0 \<le> stored_percent now None"
proof -
  assume "0 \<le> now"
  then have "0 \<le> percent_at now None"
    by (simp add: percent_at_def TEST_DURATION_SECONDS_def)
  then have "toFixed 1 0 \<le> toFixed 1 (percent_at now None)" by (rule toFixed_mono)
  then show ?thesis by (simp add: stored_percent_def)
qed

lemma the_sim_render:
  assumes "render w = Inr w'" "the_sim w = Some s"
  shows "the_sim w' = Some s
         \<or> (status s = Pending \<and> startTime s = None
            \<and> the_sim w' = Some (s\<lparr>startTime := Some (clock w)\<rparr>))
         \<or> (the_sim w' = None \<and> False)"
  using assms(1)
proof (cases rule: render_cases)
  case idle
  then show ?thesis using assms by simp
next
  case unmount
  then show ?thesis using assms by simp
next
  case (mount sim cfg)
  let ?w = "w\<lparr>props := Some sim, videoRef := \<not> isMinimized sim\<rparr>"
  have "the_sim ?w = Some s" "clock ?w = clock w" using assms(2) by (simp_all add: the_sim_def)
  then show ?thesis using mount assms(2) by (auto simp: the_sim_useEffect)
next
  case (same sim)
  then show ?thesis using assms by (simp add: the_sim_def)
next
  case (again sim cfg)
  let ?w = "runCleanup (w\<lparr>props := Some sim\<rparr>)"
  have "the_sim ?w = Some s" using assms(2) by (simp add: the_sim_runCleanup)
  moreover have "clock ?w = clock w" by (simp add: runCleanup_eq)
  ultimately show ?thesis using again assms(2) by (auto simp: the_sim_useEffect)
qed

lemma the_sim_fire:
  assumes "the_sim w = Some s"
  shows "\<exists>s'. the_sim (fire w h) = Some s' \<and> change w (Fire h) s s'"
proof (cases "map_of (timers w) h")
  case None
  then show ?thesis using assms by (simp add: fire_nf change.unchanged)
next
  case (Some t)
  show ?thesis
  proof (cases "clock w < due t")
    case True
    then show ?thesis using assms Some by (simp add: fire_nf change.unchanged)
  next
    case False
    define w1 where "w1 = w\<lparr>timers := rearm h t (timers w)\<rparr>"
    have f: "fire w h = run_callback w1 (callback t)"
      using Some False by (simp add: fire_nf w1_def)
    have w1: "the_sim w1 = Some s" "clock w1 = clock w"
      using assms by (simp_all add: w1_def the_sim_def)
    show ?thesis
    proof (cases "callback t")
      case (BeginPlayback url)
      then have "the_sim (fire w h) = Some s" using f w1 by (simp add: run_callback_def the_sim_def)
      then show ?thesis by (simp add: change.unchanged)
    next
      case (PlaybackUpdate st st0)
      show ?thesis
      proof (cases "videoRef w1 \<and> st = Running")
        case True
        then have "the_sim (fire w h) = Some (s\<lparr>playbackPercent := stored_percent (clock w) st0\<rparr>)"
          using f w1 PlaybackUpdate by (simp add: run_callback_def the_sim_playback)
        moreover have "change w (Fire h) s (s\<lparr>playbackPercent := stored_percent (clock w) st0\<rparr>)"
          using Some PlaybackUpdate True by (intro change.sample) auto
        ultimately show ?thesis by simp
      next
        case False
        then have "the_sim (fire w h) = Some s"
          using f w1 PlaybackUpdate by (auto simp: run_callback_def the_sim_playback)
        then show ?thesis by (simp add: change.unchanged)
      qed
    next
      case Complete
      then have "the_sim (fire w h)
                 = Some (s\<lparr>status := Completed, playbackPercent := 100, endTime := Some (clock w)\<rparr>)"
        using f w1 by (simp add: run_callback_def the_sim_complete)
      moreover have "change w (Fire h) s
                 (s\<lparr>status := Completed, playbackPercent := 100, endTime := Some (clock w)\<rparr>)"
        using Some Complete by (rule change.completion)
      ultimately show ?thesis by simp
    next
      case (InjectChaos rate url)
      then have "the_sim (fire w h) = Some s" using f w1 by (simp add: run_callback_def the_sim_injectChaos)
      then show ?thesis by (simp add: change.unchanged)
    next
      case (ChaosRecover url)
      then have "the_sim (fire w h) = Some s" using f w1 by (simp add: run_callback_def the_sim_def)
      then show ?thesis by (simp add: change.unchanged)
    qed
  qed
qed

lemma step_change:
  assumes "step w ev = Inr w'" "the_sim w = Some s" "the_sim w' = Some s'"
  shows "change w ev s s'"
proof (cases ev)
  case (Tick d)
  then have "the_sim w' = the_sim w" using assms(1) by (auto simp: step_def the_sim_def)
  then show ?thesis using assms by (simp add: change.unchanged)
next
  case Render
  then have "render w = Inr w'" using assms(1) by (simp add: step_def)
  from the_sim_render [OF this assms(2)] show ?thesis
    using assms(3) Render by (auto intro: change.unchanged change.activate)
next
  case Playing
  show ?thesis
  proof (cases "listeners w")
    case True
    then have "s' = played w s" using assms Playing by (auto simp: step_def the_sim_play)
    then show ?thesis using True Playing by (simp add: change.first_frame)
  next
    case False
    then show ?thesis using assms Playing by (auto simp: step_def change.unchanged)
  qed
next
  case Waiting
  then show ?thesis using assms
    by (auto simp: step_def the_sim_start split: if_splits
        intro: change.unchanged change.rebuffer_start [simplified])
next
  case Stalled
  then show ?thesis using assms
    by (auto simp: step_def the_sim_start split: if_splits
        intro: change.unchanged change.rebuffer_start [simplified])
next
  case CanPlay
  then show ?thesis using assms
    by (auto simp: step_def the_sim_end split: if_splits intro: change.unchanged change.rebuffer_end)
next
  case Error
  show ?thesis
  proof (cases "onerror w")
    case True
    then have "w' = logError w" using assms(1) Error by (simp add: step_def)
    then have "s' = spread s (logError_update s)"
      using assms(2,3) by (simp add: the_sim_logError del: spread_simps)
    then show ?thesis using True Error by (simp add: change.fault del: spread_simps)
  next
    case False
    then show ?thesis using assms Error by (auto simp: step_def change.unchanged)
  qed
next
  case (Fire h)
  then show ?thesis using assms the_sim_fire [OF assms(2), of h] by (auto simp: step_def)
next
  case Remove
  then have "w' = onRemove w" using assms(1) by (simp add: step_def)
  then have "the_sim w' = None" by (simp add: the_sim_onRemove)
  then show ?thesis using assms(3) by simp
qed

lemma step_absent:
  assumes "step w ev = Inr w'" "the_sim w = None"
  shows "the_sim w' = None"
proof (cases ev)
  case (Tick d)
  then show ?thesis using assms by (auto simp: step_def the_sim_def)
next
  case Render
  then have "render w = Inr w'" using assms(1) by (simp add: step_def)
  then show ?thesis using assms(2)
    by (cases rule: render_cases) (simp_all add: runCleanup_eq the_sim_def)
next
  case Playing
  then show ?thesis using assms by (auto simp: step_def the_sim_play)
next
  case Waiting
  then show ?thesis using assms by (auto simp: step_def the_sim_start)
next
  case Stalled
  then show ?thesis using assms by (auto simp: step_def the_sim_start)
next
  case CanPlay
  then show ?thesis using assms by (auto simp: step_def the_sim_end)
next
  case Error
  then show ?thesis using assms by (auto simp: step_def the_sim_logError)
next
  case (Fire h)
  have "the_sim (run_callback w0 cb) = None" if "the_sim w0 = None" for w0 cb
    using that
    by (cases cb) (simp_all add: run_callback_def the_sim_playback the_sim_complete
        the_sim_injectChaos)
  then have "the_sim (fire w h) = None"
    using assms(2) by (simp add: fire_nf split: option.splits)
  then show ?thesis using assms(1) Fire by (auto simp: step_def)
next
  case Remove
  then show ?thesis using assms by (auto simp: step_def the_sim_onRemove)
qed

lemma run_present:
  "run w evs = Inr w' \<Longrightarrow> the_sim w' = Some s' \<Longrightarrow> \<exists>s. the_sim w = Some s"
proof (induction evs arbitrary: w)
  case Nil
  then show ?case by simp
next
  case (Cons ev evs)
  then obtain w1 where w1: "step w ev = Inr w1" "run w1 evs = Inr w'"
    by (auto split: sum.splits)
  then obtain s1 where "the_sim w1 = Some s1" using Cons by blast
  then show ?case using step_absent [OF w1(1)] by (cases "the_sim w") auto
qed

lemma invar_run:
  "invar w s \<Longrightarrow> the_sim w = Some s \<Longrightarrow> run w evs = Inr w' \<Longrightarrow> the_sim w' = Some s'
   \<Longrightarrow> invar w' s'"
proof (induction evs arbitrary: w s)
  case Nil
  then show ?case by simp
next
  case (Cons ev evs)
  then obtain w1 where w1: "step w ev = Inr w1" "run w1 evs = Inr w'"
    by (auto split: sum.splits)
  then obtain s1 where s1: "the_sim w1 = Some s1" using run_present Cons.prems(4) by blast
  have "invar w1 s1" using Cons.prems(1,2) w1(1) s1 by (rule invar_step)
  then show ?case using Cons.IH s1 w1(2) Cons.prems(4) by blast
qed

lemma invar_init:
  assumes "the_sim (init sims i t0 r) = Some (newSim i n url p)" "0 \<le> t0"
  shows "invar (init sims i t0 r) (newSim i n url p)"
  using assms(2) stored_percent_nonneg [of t0] by (simp add: invar_def init_def newSim_def)

lemma invar_reached:
  assumes "the_sim (init sims i t0 r) = Some (newSim i n url p)" "0 \<le> t0"
    and "run (init sims i t0 r) evs = Inr w" "the_sim w = Some s"
  shows "invar w s"
  using invar_run [OF invar_init [OF assms(1,2)] assms(1,3,4)] .


subsection \<open>Rebuffer intervals and the fault count along a run\<close>

lemma ref_ok_step:
  assumes "step w ev = Inr w'" "ref_ok w"
  shows "ref_ok w'"
proof (cases ev)
  case (Tick d)
  then show ?thesis using assms by (auto simp: step_def ref_ok_def split: if_splits)
next
  case Render
  then have "render w = Inr w'" using assms(1) by (simp add: step_def)
  from render_frame [OF this] show ?thesis using assms(2) by (simp add: ref_ok_def)
next
  case Playing
  then show ?thesis using assms by (auto simp: step_def ref_ok_def split: if_splits)
next
  case Waiting
  then show ?thesis using assms by (auto simp: step_def ref_ok_def split: if_splits)
next
  case Stalled
  then show ?thesis using assms by (auto simp: step_def ref_ok_def split: if_splits)
next
  case CanPlay
  then show ?thesis using assms by (auto simp: step_def ref_ok_def split: if_splits)
next
  case Error
  then show ?thesis using assms by (auto simp: step_def ref_ok_def split: if_splits)
next
  case (Fire h)
  then show ?thesis using assms by (auto simp: step_def ref_ok_def fire_frame)
next
  case Remove
  then show ?thesis using assms by (auto simp: step_def ref_ok_def onRemove_def)
qed

lemma ref_ok_run: "run w evs = Inr w' \<Longrightarrow> ref_ok w \<Longrightarrow> ref_ok w'"
  by (induction evs arbitrary: w) (auto split: sum.splits dest: ref_ok_step)

lemma ref_ok_init: "ref_ok (init sims i t0 r)"
  by (simp add: ref_ok_def init_def)

lemma errorCount_run:
  "run w evs = Inr w' \<Longrightarrow> the_sim w = Some s \<Longrightarrow> the_sim w' = Some s'
   \<Longrightarrow> errorCount s \<le> errorCount s'"
proof (induction evs arbitrary: w s)
  case Nil
  then show ?case by simp
next
  case (Cons ev evs)
  then obtain w1 where w1: "step w ev = Inr w1" "run w1 evs = Inr w'"
    by (auto split: sum.splits)
  then obtain s1 where s1: "the_sim w1 = Some s1" using run_present Cons.prems(3) by blast
  have "change w ev s s1" using w1(1) Cons.prems(2) s1 by (rule step_change)
  then have "errorCount s \<le> errorCount s1"
    by cases (simp_all add: played_def Let_def)
  moreover have "errorCount s1 \<le> errorCount s'" using Cons.IH [OF w1(2) s1 Cons.prems(3)] .
  ultimately show ?case by simp
qed

subsection \<open>A removed run\<close>

lemma absent_update:
  "the_sim w = None \<Longrightarrow> handleUpdateSimulation (simulations w) (card_id w) u = simulations w"
  by (rule update_absent) (auto simp: the_sim_def find_None_iff)

lemma useEffect_registry:
  assumes "the_sim w = None"
  shows "simulations (useEffect w p cfg) = simulations w \<and> card_id (useEffect w p cfg) = card_id w"
proof -
  consider "\<not> videoRef w" | "videoRef w" "status p = Running"
    | "videoRef w" "status p = Pending" "startTime p = None"
    | "videoRef w" "status p \<noteq> Running" "\<not> (status p = Pending \<and> startTime p = None)"
    by (cases "status p") auto
  then show ?thesis
    using absent_update [OF assms]
    by cases (simp_all add: useEffect_hidden useEffect_running useEffect_activate useEffect_other)
qed

lemma run_callback_registry:
  assumes "the_sim w = None"
  shows "simulations (run_callback w cb) = simulations w"
  using absent_update [OF assms]
  by (cases cb)
     (simp_all add: run_callback_def handlePlaybackUpdate_def onUpdate_def complete_nf
        injectChaos_nf Let_def)

lemma removed_run_untouched:
  assumes "step w ev = Inr w'" "the_sim w = None"
  shows "simulations w' = simulations w"
proof (cases ev)
  case (Tick d)
  then show ?thesis using assms by (auto simp: step_def)
next
  case Render
  then have "render w = Inr w'" using assms(1) by (simp add: step_def)
  then show ?thesis using assms(2)
    by (cases rule: render_cases) (simp_all add: runCleanup_eq)
next
  case Playing
  then show ?thesis using assms absent_update [OF assms(2)]
    by (auto simp: step_def handleInitialPlay_nf Let_def)
next
  case Waiting
  then show ?thesis using assms absent_update [OF assms(2)]
    by (auto simp: step_def handleRebufferingStart_nf)
next
  case Stalled
  then show ?thesis using assms absent_update [OF assms(2)]
    by (auto simp: step_def handleRebufferingStart_nf)
next
  case CanPlay
  then show ?thesis using assms absent_update [OF assms(2)]
    by (auto simp: step_def handleRebufferingEnd_nf)
next
  case Error
  then show ?thesis using assms absent_update [OF assms(2)]
    by (auto simp: step_def logError_nf)
next
  case (Fire h)
  have "simulations (fire w h) = simulations w"
  proof (cases "map_of (timers w) h")
    case None
    then show ?thesis by (simp add: fire_nf)
  next
    case (Some t)
    have "the_sim (w\<lparr>timers := rearm h t (timers w)\<rparr>) = None" using assms(2) by simp
    from run_callback_registry [OF this] show ?thesis using Some by (simp add: fire_nf)
  qed
  then show ?thesis using assms(1) Fire by (auto simp: step_def)
next
  case Remove
  then have "w' = onRemove w" using assms(1) by (simp add: step_def)
  moreover have "handleRemoveSimulation (simulations w) (card_id w) = simulations w"
    using assms(2) by (intro remove_absent) (auto simp: the_sim_def find_None_iff)
  ultimately show ?thesis by (simp add: onRemove_def)
qed

section \<open>The claims\<close>

text \<open>The definitions that are unfolded to evaluate the model on a concrete sequence of events.\<close>

lemmas model_defs = init_def newSim_def the_sim_def onUpdate_def onRemove_def timeoutArg_def
  setTimer_def setTimeout_def setInterval_def clearTimer_def truthy_def Math_random_def
  updateStatus_def logError_update_def logError_def handleRebufferingStart_def
  handleRebufferingEnd_def percent_at_def handlePlaybackUpdate_def handleInitialPlay_def
  injectChaos_def complete_update_def complete_def config_fields_def useEffect_def
  runCleanup_def render_def run_callback_def fire_def step_def
  handleUpdateSimulation_def handleRemoveSimulation_def spread_def no_patch_def
  config_def config_delay_def config_errorRate_def config_chaosType_def PRESETS_def
  Object_prototype_keys_def TEST_DURATION_SECONDS_def Let_def
  outcome_def run_sim_def baseline_world_def chaos_world_def

text \<open>
  C1. The claim: a run's status only moves forward along pending, running, then completed
  or failed; completed and failed are final; the deferred completion never turns failed
  into completed. The code does not keep this. \<^verbatim>\<open>logError\<close> leaves a finished status alone,
  but \<^verbatim>\<open>handleInitialPlay\<close> sets \<^verbatim>\<open>running\<close> whenever the first-frame timer is still armed,
  whatever the status is, and the completion callback sets \<^verbatim>\<open>completed\<close> without looking at
  the status. First sequence: the card is mounted, playback begins, the element reports an
  error before its first frame (the run is failed), then reports \<^verbatim>\<open>playing\<close>: the failed run
  is running again, and sixty seconds later completed. Second sequence: a running run gets
  an error at the moment its completion timer is due, and the timer fires before React has
  committed the re-render whose cleanup would clear it: failed becomes completed.
\<close>

theorem C1_failed_run_resumes:
  "map_option status (run_sim baseline_world [Render, Render, Fire 1, Error, Render]) = Some Failed
   \<and> map_option status
         (run_sim baseline_world [Render, Render, Fire 1, Error, Render, Tick 5, Playing])
       = Some Running
   \<and> map_option status
         (run_sim baseline_world
            [Render, Render, Fire 1, Error, Render, Tick 5, Playing, Render, Tick 60000, Fire 3])
       = Some Completed
   \<and> map_option status
         (run_sim baseline_world
            [Render, Render, Fire 1, Tick 120, Playing, Render, Tick 60000, Error])
       = Some Failed
   \<and> map_option status
         (run_sim baseline_world
            [Render, Render, Fire 1, Tick 120, Playing, Render, Tick 60000, Error, Fire 3])
       = Some Completed"
  by (simp add: model_defs toFixed_def)




text \<open>
  C3. The claim: the injector makes no random draw while the run is not running. The code
  does not keep this. The cleanup returned by the effect of a running run only clears the
  completion timeout (lines 187-189); the other cleanup (lines 192-199) and the
  completion callback clear the two intervals. So when a running run fails, the chaos
  interval stays armed and keeps drawing. The sequence: a run with the preset \<^verbatim>\<open>404\<close> is
  mounted and runs; three seconds later the injector (timer 4) draws 0.05, below the 0.1
  fault probability, and starts a fault cycle; the element reports the error and the run
  is failed; React renders again. After that the chaos interval is still among the
  timers, and its next firing three seconds later makes two more draws and starts a
  second fault cycle, on a failed run.
\<close>

theorem C3_draws_on_failed_run:
  "map_option (\<lambda>w. (map_option status (the_sim w), draws w, faults w, map fst (timers w)))
       (outcome chaos_world
          [Render, Render, Fire 1, Tick 120, Playing, Render, Tick 3000, Fire 4, Error, Render])
     = Some (Some Failed, 2, 1, [2, 4, 5])
   \<and> map_option (\<lambda>w. (map_option status (the_sim w), draws w, faults w, map fst (timers w)))
       (outcome chaos_world
          [Render, Render, Fire 1, Tick 120, Playing, Render, Tick 3000, Fire 4, Error, Render,
           Tick 500, Fire 5, Tick 2500, Fire 4])
     = Some (Some Failed, 4, 2, [2, 4, 6])"
  by (simp add: model_defs toFixed_def)

text \<open>
  C4. The claim: removing a run cancels all its timers and intervals, and nothing changes
  the removed run's state in the registry afterwards. The second half holds (lemma
  \<open>removed_run_untouched\<close>). The first does not, by the same cleanup as in C3: when a
  running run is removed, the unmount runs the cleanup of lines 187-189, which clears the
  completion timeout only. The sequence: the \<^verbatim>\<open>404\<close> run is mounted and runs, the user
  purges it, React unmounts the card. The sampler (timer 2) and the chaos interval
  (timer 4) are still armed, and three seconds later the injector draws a random number.
\<close>

theorem C4_intervals_survive_removal:
  "map_option (\<lambda>w. (the_sim w, unmounted w, map (\<lambda>e. (fst e, callback (snd e))) (timers w), draws w))
       (outcome chaos_world
          [Render, Render, Fire 1, Tick 120, Playing, Render, Remove, Render])
     = Some (None, True,
             [(2, PlaybackUpdate Running (Some 1000)),
              (4, InjectChaos (Some (1 / 10)) ''https://example.org/a.mp4'')], 0)
   \<and> map_option (\<lambda>w. (the_sim w, map fst (timers w), draws w))
       (outcome chaos_world
          [Render, Render, Fire 1, Tick 120, Playing, Render, Remove, Render, Tick 3000, Fire 4])
     = Some (None, [2, 4], 1)"
  by (simp add: model_defs toFixed_def)

text \<open>
  C5. The claim: \<^verbatim>\<open>ttff\<close> is set at most once, on the first frame, and only while the run
  leaves \<^verbatim>\<open>pending\<close>. Once set it is indeed never changed (lemma \<open>ttff_once\<close> below). But
  \<^verbatim>\<open>handleInitialPlay\<close> tests only the first-frame timer, not the status, so on the first
  sequence of C1 the value is recorded while the run leaves \<^verbatim>\<open>failed\<close>.
\<close>

theorem C5_ttff_recorded_on_failed_run:
  "map_option (\<lambda>s. (status s, ttff s))
       (run_sim baseline_world [Render, Render, Fire 1, Error, Render]) = Some (Failed, None)
   \<and> map_option (\<lambda>s. (status s, ttff s))
         (run_sim baseline_world [Render, Render, Fire 1, Error, Render, Tick 5, Playing])
       = Some (Running, Some 5)"
  by (simp add: model_defs toFixed_def)

lemma ttff_once:
  assumes "the_sim (init sims i t0 r) = Some (newSim i n url p)" and "0 \<le> t0"
    and "run (init sims i t0 r) evs = Inr w" and "step w ev = Inr w'"
    and "the_sim w = Some s" and "the_sim w' = Some s'" and "ttff s \<noteq> None"
  shows "ttff s' = ttff s"
proof -
  have inv: "invar w s" using assms(1,2,3,5) by (rule invar_reached)
  then have r: "\<not> ttffStartRef w > 0" using assms(7) by (auto simp: invar_def)
  have "change w ev s s'" using assms(4,5,6) by (rule step_change)
  then show ?thesis using r by cases (simp_all add: played_def Let_def)
qed

text \<open>
  C6. In every state a card reaches from its initial state, and for every event: the
  run's cumulative rebuffer time does not decrease; if it changes, the event is an end
  signal (\<^verbatim>\<open>canplay\<close>, or \<^verbatim>\<open>playing\<close>, which also closes an interval) received by the card
  while a rebuffer interval is open (the ref holds its start, which is positive and not
  later than now), the interval is closed by it, and the time grows by the interval's
  length in seconds; and with no open interval no event changes the rebuffer time.
\<close>

theorem C6_rebuffer_time:
  assumes "run (init sims i t0 r) evs = Inr w" and "step w ev = Inr w'"
    and "the_sim w = Some s" and "the_sim w' = Some s'"
  shows "rebufferingTime s \<le> rebufferingTime s'
    \<and> (rebufferingTime s' \<noteq> rebufferingTime s \<longrightarrow>
         (ev = CanPlay \<or> ev = Playing) \<and> listeners w
         \<and> 0 < rebufferingTimerRef w \<and> rebufferingTimerRef w \<le> clock w
         \<and> rebufferingTimerRef w' = 0
         \<and> rebufferingTime s' = rebufferingTime s + (clock w - rebufferingTimerRef w) / 1000)
    \<and> (\<not> 0 < rebufferingTimerRef w \<longrightarrow> rebufferingTime s' = rebufferingTime s)"
proof -
  have ok: "ref_ok w" using ref_ok_run [OF assms(1) ref_ok_init] .
  have ch: "change w ev s s'" using assms(2,3,4) by (rule step_change)
  then show ?thesis
  proof cases
    case unchanged
    then show ?thesis by simp
  next
    case activate
    then show ?thesis by simp
  next
    case fault
    then show ?thesis by simp
  next
    case rebuffer_start
    then show ?thesis by simp
  next
    case rebuffer_end
    then have "w' = handleRebufferingEnd w" using assms(2) by (simp add: step_def)
    then show ?thesis using rebuffer_end ok by (auto simp: ref_ok_def)
  next
    case first_frame
    then have "w' = handleInitialPlay w" using assms(2) by (simp add: step_def)
    then show ?thesis using first_frame ok by (auto simp: ref_ok_def played_def Let_def)
  next
    case (sample h t st0)
    then show ?thesis by simp
  next
    case (completion h t)
    then show ?thesis by simp
  qed
qed

text \<open>
  The theorem at a concrete run: the element reports \<^verbatim>\<open>waiting\<close> at 2120 ms and \<^verbatim>\<open>canplay\<close>
  500 ms later; the rebuffer time goes from 0 to 0.5 s and the interval is closed.
\<close>

theorem C6_rebuffer_time_witness:
  "\<exists>w w' s s'.
     run baseline_world
       [Render, Render, Fire 1, Tick 120, Playing, Render, Tick 1000, Waiting, Tick 500] = Inr w
     \<and> step w CanPlay = Inr w' \<and> the_sim w = Some s \<and> the_sim w' = Some s'
     \<and> rebufferingTimerRef w = 2120 \<and> clock w = 2620 \<and> listeners w
     \<and> rebufferingTime s = 0 \<and> rebufferingTime s' = 1 / 2
     \<and> rebufferingTime s \<le> rebufferingTime s' \<and> rebufferingTimerRef w' = 0"
proof -
  let ?evs = "[Render, Render, Fire 1, Tick 120, Playing, Render, Tick 1000, Waiting, Tick 500]"
  define w where "w = projr (run baseline_world ?evs)"
  define w' where "w' = projr (step w CanPlay)"
  define s where "s = the (the_sim w)"
  define s' where "s' = the (the_sim w')"
  have h1: "run (init [newSim ''r1'' ''BASELINE (STABLE) TEST'' ''https://example.org/a.mp4'' ''baseline'']
              ''r1'' 1000 (\<lambda>k. 1 / 20)) ?evs = Inr w"
    unfolding w_def by (simp add: model_defs toFixed_def)
  have h2: "step w CanPlay = Inr w'" unfolding w'_def by (simp add: step_def)
  have h3: "the_sim w = Some s" unfolding s_def w_def by (simp add: model_defs toFixed_def)
  have h4: "the_sim w' = Some s'"
    unfolding s'_def w'_def w_def by (simp add: model_defs toFixed_def)
  have v: "rebufferingTimerRef w = 2120" "clock w = 2620" "listeners w" "rebufferingTime s = 0"
    unfolding s_def w_def by (simp_all add: model_defs toFixed_def)
  have v': "rebufferingTime s' = 1 / 2"
    unfolding s'_def w'_def w_def by (simp add: model_defs toFixed_def)
  note c = C6_rebuffer_time [OF h1 h2 h3 h4]
  have "rebufferingTime s' \<noteq> rebufferingTime s" using v v' by simp
  then have z: "rebufferingTimerRef w' = 0" using c by blast
  show ?thesis
    using h1 h2 h3 h4 v v' c z unfolding baseline_world_def by blast
qed

text \<open>
  C7. From any state in which the run is in the registry, along any sequence of events:
  the fault count never decreases; an error event that reaches the card's handler raises
  it by exactly one; and whenever a step changes the count, the step is an error event,
  the count grew by one, a run that was pending or running is failed afterwards, and a
  run that was completed or failed keeps its status.
\<close>

theorem C7_fault_count:
  assumes "the_sim w0 = Some s0" and "run w0 evs = Inr w" and "step w ev = Inr w'"
    and "the_sim w = Some s" and "the_sim w' = Some s'"
  shows "errorCount s0 \<le> errorCount s \<and> errorCount s \<le> errorCount s'
    \<and> (ev = Error \<and> onerror w \<longrightarrow> errorCount s' = errorCount s + 1)
    \<and> (errorCount s' \<noteq> errorCount s \<longrightarrow>
         ev = Error \<and> errorCount s' = errorCount s + 1
         \<and> (status s = Pending \<or> status s = Running \<longrightarrow> status s' = Failed)
         \<and> (status s = Completed \<or> status s = Failed \<longrightarrow> status s' = status s))"
proof -
  have 1: "errorCount s0 \<le> errorCount s" using assms(2,1,4) by (rule errorCount_run)
  have 2: "ev = Error \<and> onerror w \<longrightarrow> errorCount s' = errorCount s + 1"
    using assms(3,4,5) by (auto simp: step_def the_sim_logError)
  have "change w ev s s'" using assms(3,4,5) by (rule step_change)
  then have 3: "errorCount s \<le> errorCount s'
    \<and> (errorCount s' \<noteq> errorCount s \<longrightarrow>
         ev = Error \<and> errorCount s' = errorCount s + 1
         \<and> (status s = Pending \<or> status s = Running \<longrightarrow> status s' = Failed)
         \<and> (status s = Completed \<or> status s = Failed \<longrightarrow> status s' = status s))"
    by cases (auto simp: played_def Let_def)
  show ?thesis using 1 2 3 by blast
qed

text \<open>The theorem at a concrete run: an error on the running baseline run.\<close>

theorem C7_fault_count_witness:
  "\<exists>s0 w w' s s'.
     the_sim baseline_world = Some s0
     \<and> run baseline_world [Render, Render, Fire 1, Tick 120, Playing, Render] = Inr w
     \<and> step w Error = Inr w' \<and> the_sim w = Some s \<and> the_sim w' = Some s'
     \<and> onerror w \<and> status s = Running \<and> errorCount s = 0
     \<and> errorCount s0 \<le> errorCount s \<and> errorCount s' = errorCount s + 1 \<and> status s' = Failed"
proof -
  let ?evs = "[Render, Render, Fire 1, Tick 120, Playing, Render]"
  define s0 where "s0 = the (the_sim baseline_world)"
  define w where "w = projr (run baseline_world ?evs)"
  define w' where "w' = projr (step w Error)"
  define s where "s = the (the_sim w)"
  define s' where "s' = the (the_sim w')"
  have h0: "the_sim baseline_world = Some s0" unfolding s0_def by (simp add: model_defs)
  have h1: "run baseline_world ?evs = Inr w"
    unfolding w_def by (simp add: model_defs toFixed_def)
  have h2: "step w Error = Inr w'" unfolding w'_def by (simp add: step_def)
  have h3: "the_sim w = Some s" unfolding s_def w_def by (simp add: model_defs toFixed_def)
  have h4: "the_sim w' = Some s'"
    unfolding s'_def w'_def w_def by (simp add: model_defs toFixed_def)
  have v: "onerror w" "status s = Running" "errorCount s = 0"
    unfolding s_def w_def by (simp_all add: model_defs toFixed_def)
  note c = C7_fault_count [OF h0 h1 h2 h3 h4]
  have e: "errorCount s' = errorCount s + 1" using c v(1) by blast
  then have "errorCount s' \<noteq> errorCount s" by simp
  then have "status s' = Failed" using c v(2) by blast
  then show ?thesis using h0 h1 h2 h3 h4 v c e by blast
qed

text \<open>
  C8. For every registry state and every identity that no run of the collection has,
  \<^verbatim>\<open>update(id, patch-or-function)\<close> and \<^verbatim>\<open>remove(id)\<close> return the collection unchanged.
  Both functions are total, so nothing is raised; the update function is not even called.
\<close>

theorem C8_absent_identity_noop:
  assumes "i \<notin> sim_id ` set prev"
  shows "handleUpdateSimulation prev i u = prev \<and> handleRemoveSimulation prev i = prev"
  using assms by (simp add: update_absent remove_absent)

text \<open>The theorem for a registry of one run and an identity it does not hold.\<close>

theorem C8_absent_identity_noop_witness:
  "''zz'' \<notin> sim_id ` set [newSim ''a1'' ''one'' ''u'' ''baseline'']
   \<and> handleUpdateSimulation [newSim ''a1'' ''one'' ''u'' ''baseline''] ''zz''
        (Fn (\<lambda>s. no_patch\<lparr>p_errorCount := Some (errorCount s + 1)\<rparr>))
      = [newSim ''a1'' ''one'' ''u'' ''baseline'']
   \<and> handleRemoveSimulation [newSim ''a1'' ''one'' ''u'' ''baseline''] ''zz''
      = [newSim ''a1'' ''one'' ''u'' ''baseline'']"
proof -
  have h: "''zz'' \<notin> sim_id ` set [newSim ''a1'' ''one'' ''u'' ''baseline'']"
    by (simp add: newSim_def)
  show ?thesis
    using h C8_absent_identity_noop [OF h,
        of "Fn (\<lambda>s. no_patch\<lparr>p_errorCount := Some (errorCount s + 1)\<rparr>)"]
    by simp
qed

text \<open>
  C9. The two views computed on every render split the collection: the pinned view holds
  exactly the runs whose \<^verbatim>\<open>isMinimized\<close> flag is set, the active view exactly the others,
  every run of the collection is in one of them as often as it is in the collection, and
  each view lists its runs in the order of the collection (it is a subsequence of it).
  The collection is in insertion order because creation appends.
\<close>

theorem C9_partition:
  "set (minimizedSimulations sims) = {s. s \<in> set sims \<and> isMinimized s}
   \<and> set (activeSimulations sims) = {s. s \<in> set sims \<and> \<not> isMinimized s}
   \<and> mset (minimizedSimulations sims) + mset (activeSimulations sims) = mset sims
   \<and> subseq (minimizedSimulations sims) sims
   \<and> subseq (activeSimulations sims) sims
   \<and> minimizedSimulations (handleCreateSimulation sims s)
       = minimizedSimulations sims @ (if isMinimized s then [s] else [])
   \<and> activeSimulations (handleCreateSimulation sims s)
       = activeSimulations sims @ (if isMinimized s then [] else [s])"
  unfolding minimizedSimulations_def activeSimulations_def handleCreateSimulation_def
  by (auto simp: multiset_partition [symmetric])

text \<open>
  C10. The card looks its preset key up in the table without a guard. The lookup gives a
  preset record exactly for the four keys of the table. For one of them the three fields
  the controller and the injector read are numbers and a category, and a render of the
  card does not throw. For any other key none of the three reads gives a value: each
  either throws or gives \<^verbatim>\<open>undefined\<close>. For a key that is neither in the table nor a member
  of \<^verbatim>\<open>Object.prototype\<close> the lookup is \<^verbatim>\<open>undefined\<close>, every read throws a \<^verbatim>\<open>TypeError\<close>, and
  so does the render of a card whose run has that key.
\<close>

theorem C10_config_lookup:
  "((\<exists>c. config k = Own c) \<longleftrightarrow> k \<in> {''baseline'', ''latency'', ''404'', ''spikey''})
   \<and> (k \<in> {''baseline'', ''latency'', ''404'', ''spikey''} \<longrightarrow>
        (\<exists>d r c. config_delay (config k) = Inr (Some d)
                 \<and> config_errorRate (config k) = Inr (Some r)
                 \<and> config_chaosType (config k) = Inr (Some c))
        \<and> (the_sim w = Some sim \<and> preset sim = k \<longrightarrow> (\<exists>w'. render w = Inr w')))
   \<and> (k \<notin> {''baseline'', ''latency'', ''404'', ''spikey''} \<longrightarrow>
        config_delay (config k) \<in> {Inl TypeError, Inr None}
        \<and> config_errorRate (config k) \<in> {Inl TypeError, Inr None}
        \<and> config_chaosType (config k) \<in> {Inl TypeError, Inr None})
   \<and> (k \<notin> {''baseline'', ''latency'', ''404'', ''spikey''} \<and> k \<notin> set Object_prototype_keys \<longrightarrow>
        config k = Undefined
        \<and> config_delay (config k) = Inl TypeError
        \<and> config_errorRate (config k) = Inl TypeError
        \<and> config_chaosType (config k) = Inl TypeError
        \<and> (\<not> unmounted w \<and> the_sim w = Some sim \<and> preset sim = k \<longrightarrow> render w = Inl TypeError))"
proof -
  have own: "(\<exists>c. config k = Own c) \<longleftrightarrow> k \<in> {''baseline'', ''latency'', ''404'', ''spikey''}"
    using PRESETS_Some_iff [of k] by (auto simp: config_def split: option.splits)
  show ?thesis
  proof (cases "k \<in> {''baseline'', ''latency'', ''404'', ''spikey''}")
    case True
    then obtain c where c: "config k = Own c" using own by blast
    have "the_sim w = Some sim \<and> preset sim = k \<longrightarrow> (\<exists>w'. render w = Inr w')"
      using c by (auto simp: render_def config_fields_def config_errorRate_def config_delay_def
          config_chaosType_def split: option.splits)
    with True c own show ?thesis
      by (simp add: config_errorRate_def config_delay_def config_chaosType_def)
  next
    case False
    then have n: "PRESETS k = None" using PRESETS_Some_iff [of k] by (cases "PRESETS k") auto
    show ?thesis
    proof (cases "k \<in> set Object_prototype_keys")
      case True
      with n have "config k = Inherited" by (simp add: config_def)
      with False True own show ?thesis
        by (simp add: config_errorRate_def config_delay_def config_chaosType_def)
    next
      case notin: False
      with n have u: "config k = Undefined" by (simp add: config_def)
      have "\<not> unmounted w \<and> the_sim w = Some sim \<and> preset sim = k \<longrightarrow> render w = Inl TypeError"
        using u by (simp add: render_def config_fields_def config_errorRate_def)
      with False notin own u show ?thesis
        by (simp add: config_errorRate_def config_delay_def config_chaosType_def)
    qed
  qed
qed

text \<open>The theorem at the key \<^verbatim>\<open>latency\<close> and at a key that is not in the table.\<close>

theorem C10_config_lookup_witness:
  "config_delay (config ''latency'') = Inr (Some 1000)
   \<and> (\<exists>w'. render (init [newSim ''r1'' ''n'' ''u'' ''latency''] ''r1'' 1000 (\<lambda>k. 0)) = Inr w')
   \<and> ''bogus'' \<notin> {''baseline'', ''latency'', ''404'', ''spikey''}
   \<and> ''bogus'' \<notin> set Object_prototype_keys
   \<and> config ''bogus'' = Undefined
   \<and> config_errorRate (config ''bogus'') = Inl TypeError
   \<and> render (init [newSim ''r1'' ''n'' ''u'' ''bogus''] ''r1'' 1000 (\<lambda>k. 0)) = Inl TypeError"
proof -
  let ?good = "init [newSim ''r1'' ''n'' ''u'' ''latency''] ''r1'' 1000 (\<lambda>k. 0)"
  let ?bad = "init [newSim ''r1'' ''n'' ''u'' ''bogus''] ''r1'' 1000 (\<lambda>k. 0)"
  have g: "the_sim ?good = Some (newSim ''r1'' ''n'' ''u'' ''latency'')"
    "preset (newSim ''r1'' ''n'' ''u'' ''latency'') = ''latency''"
    by (simp_all add: init_def the_sim_def newSim_def)
  have b: "\<not> unmounted ?bad" "the_sim ?bad = Some (newSim ''r1'' ''n'' ''u'' ''bogus'')"
    "preset (newSim ''r1'' ''n'' ''u'' ''bogus'') = ''bogus''"
    by (simp_all add: init_def the_sim_def newSim_def)
  have k: "''latency'' \<in> {''baseline'', ''latency'', ''404'', ''spikey''}"
    "''bogus'' \<notin> {''baseline'', ''latency'', ''404'', ''spikey''}"
    "''bogus'' \<notin> set Object_prototype_keys"
    by (simp_all add: Object_prototype_keys_def)
  have d: "config_delay (config ''latency'') = Inr (Some 1000)"
    by (simp add: config_delay_def config_def PRESETS_def)
  note good = C10_config_lookup [of "''latency''" ?good "newSim ''r1'' ''n'' ''u'' ''latency''"]
  note bad = C10_config_lookup [of "''bogus''" ?bad "newSim ''r1'' ''n'' ''u'' ''bogus''"]
  have r1: "\<exists>w'. render ?good = Inr w'"
    using good [THEN conjunct2, THEN conjunct1] g k(1) by blast
  have r2: "config ''bogus'' = Undefined \<and> config_errorRate (config ''bogus'') = Inl TypeError
            \<and> render ?bad = Inl TypeError"
    using bad [THEN conjunct2, THEN conjunct2, THEN conjunct2] b k(2,3) by blast
  show ?thesis using r1 r2 k d by blast
qed

end
